theory Spec2Isabelle
  imports Main "HOL-Library.Word"
begin

section \<open>Strings, clock values and buffers\<close>

text \<open>
  JavaScript strings are modelled as \<^typ>\<open>string\<close>, one \<^typ>\<open>char\<close> per code unit
  (code units below 256). A \<open>Buffer\<close> is a list of bytes. \<open>Date.now()\<close> is a natural
  number of milliseconds.
\<close>

type_synonym byte = "8 word"

text \<open>\<open>String.prototype.trim\<close>: the white space of ECMAScript among the code units below 256.\<close>

definition isSpace :: "char \<Rightarrow> bool" where
  "isSpace c = ((of_char c :: nat) \<in> {9, 10, 11, 12, 13, 32, 160})"

definition trim :: "string \<Rightarrow> string" where
  "trim s = rev (dropWhile isSpace (rev (dropWhile isSpace s)))"

text \<open>A string in a condition (\<open>if (s)\<close>, \<open>s || d\<close>): the empty string is falsy.\<close>

definition truthy :: "string \<Rightarrow> bool" where
  "truthy s = (s \<noteq> [])"

fun truthy_opt :: "string option \<Rightarrow> bool" where
  "truthy_opt None = False"
| "truthy_opt (Some s) = truthy s"

text \<open>The decimal digits of a number, as a template literal prints \<open>Date.now()\<close>.\<close>

definition digit :: "nat \<Rightarrow> char" where
  "digit d = char_of (48 + d)"

function decimal :: "nat \<Rightarrow> string" where
  "decimal n = (if n < 10 then [digit n] else decimal (n div 10) @ [digit (n mod 10)])"
  by pat_completeness auto
termination
  by (relation "measure (\<lambda>n. n)") auto

declare decimal.simps [simp del]

text \<open>\<open>`audio_${Date.now()}`\<close>\<close>

definition audio_token :: "nat \<Rightarrow> string" where
  "audio_token now = ''audio_'' @ decimal now"

subsection \<open>Base64, as \<open>Buffer.toString('base64')\<close> and \<open>Buffer.from(s, 'base64')\<close>\<close>

text \<open>
  The runtime's codec is not code of the repository; it is modelled after RFC 4648
  (standard alphabet, \<open>=\<close> padding). Decoding stops at the first group that is not
  four alphabet characters, after taking the bytes a padded group carries.
\<close>

definition enc6 :: "nat \<Rightarrow> char" where
  "enc6 n = (if n < 26 then char_of (65 + n)
             else if n < 52 then char_of (71 + n)
             else if n < 62 then char_of (n - 4)
             else if n = 62 then CHR ''+'' else CHR ''/'')"

definition dec6 :: "char \<Rightarrow> nat option" where
  "dec6 c = (let k = (of_char c :: nat) in
     if 65 \<le> k \<and> k \<le> 90 then Some (k - 65)
     else if 97 \<le> k \<and> k \<le> 122 then Some (k - 71)
     else if 48 \<le> k \<and> k \<le> 57 then Some (k + 4)
     else if k = 43 then Some 62
     else if k = 47 then Some 63
     else None)"

fun b64encode :: "byte list \<Rightarrow> string" where
  "b64encode [] = []"
| "b64encode [a] =
     (let n = unat a * 16 in [enc6 (n div 64), enc6 (n mod 64), CHR ''='', CHR ''=''])"
| "b64encode [a, b] =
     (let n = unat a * 1024 + unat b * 4
      in [enc6 (n div 4096), enc6 (n div 64 mod 64), enc6 (n mod 64), CHR ''=''])"
| "b64encode (a # b # c # rest) =
     (let n = unat a * 65536 + unat b * 256 + unat c
      in [enc6 (n div 262144), enc6 (n div 4096 mod 64), enc6 (n div 64 mod 64), enc6 (n mod 64)])
     @ b64encode rest"

fun b64decode :: "string \<Rightarrow> byte list" where
  "b64decode (p # q # r # s # rest) =
     (case (dec6 p, dec6 q) of
        (Some w, Some x) \<Rightarrow>
          (case dec6 r of
             None \<Rightarrow> [of_nat ((w * 64 + x) div 16)]
           | Some y \<Rightarrow>
               (case dec6 s of
                  None \<Rightarrow> (let n = (w * 64 + x) * 64 + y
                           in [of_nat (n div 1024), of_nat (n div 4 mod 256)])
                | Some z \<Rightarrow> (let n = ((w * 64 + x) * 64 + y) * 64 + z
                             in [of_nat (n div 65536), of_nat (n div 256 mod 256), of_nat (n mod 256)]
                                @ b64decode rest)))
      | _ \<Rightarrow> [])"
| "b64decode _ = []"

section \<open>Audio output: \<open>sendAudioToTwilio\<close> (websocket.ts)\<close>

text \<open>The four states of a connection of the \<open>websocket\<close> package.\<close>

datatype conn_state = ConnOpen | ConnPeerRequestedClose | ConnEnding | ConnClosed

text \<open>
  An outbound protocol frame, before \<open>JSON.stringify\<close>:
  \<open>{event: 'media', streamSid, media: {payload}}\<close> and \<open>{event: 'mark', streamSid, mark: {name}}\<close>.
\<close>

datatype frame = MediaFrame string string | MarkFrame string string

fun is_media :: "frame \<Rightarrow> bool" where
  "is_media (MediaFrame sid p) = True"
| "is_media (MarkFrame sid n) = False"

fun payload :: "frame \<Rightarrow> string" where
  "payload (MediaFrame sid p) = p"
| "payload (MarkFrame sid n) = []"

definition CHUNK_SIZE :: nat where
  "CHUNK_SIZE = 4000"

text \<open>\<open>buf.slice(i, j)\<close> for \<open>0 \<le> i \<le> j\<close>; the end is clamped to the length.\<close>

definition slice :: "'a list \<Rightarrow> nat \<Rightarrow> nat \<Rightarrow> 'a list" where
  "slice xs i j = take (j - i) (drop i xs)"

text \<open>
  The loop \<open>for (let i = 0; i < audioBuffer.length; i += CHUNK_SIZE)\<close>. \<open>connection.sendUTF\<close>
  belongs to the socket library; the function catches what it throws, so the write is a
  parameter: \<open>ok f\<close> holds when writing frame \<open>f\<close> returns, and fails when it throws.
  The result is the frames written and whether the loop threw.
\<close>

function sendChunks :: "(frame \<Rightarrow> bool) \<Rightarrow> string \<Rightarrow> byte list \<Rightarrow> nat \<Rightarrow> frame list \<times> bool" where
  "sendChunks ok sid buf i =
     (if i < length buf then
        (let f = MediaFrame sid (b64encode (slice buf i (i + CHUNK_SIZE)))
         in if ok f then (let (fs, threw) = sendChunks ok sid buf (i + CHUNK_SIZE) in (f # fs, threw))
            else ([], True))
      else ([], False))"
  by pat_completeness auto
termination
  by (relation "measure (\<lambda>(ok, sid, buf, i). length buf - i)") (auto simp: CHUNK_SIZE_def)

declare sendChunks.simps [simp del]

text \<open>
  \<open>sendAudioToTwilio(audioBuffer, markName?)\<close>: nothing is sent without a stream identifier
  or on a connection that is not open; otherwise the chunks, then the mark frame, named
  \<open>markName || `audio_${Date.now()}`\<close>. The second component is \<open>True\<close> when the function
  rethrows a failed write.
\<close>

definition sendAudioToTwilio ::
  "(frame \<Rightarrow> bool) \<Rightarrow> conn_state \<Rightarrow> string option \<Rightarrow> nat \<Rightarrow> byte list \<Rightarrow> string option
     \<Rightarrow> frame list \<times> bool" where
  "sendAudioToTwilio ok cstate streamSid now audioBuffer markName =
     (case streamSid of
        None \<Rightarrow> ([], False)
      | Some sid \<Rightarrow>
          if \<not> truthy sid then ([], False)
          else if cstate \<noteq> ConnOpen then ([], False)
          else (let (fs, threw) = sendChunks ok sid audioBuffer 0
                in if threw then (fs, True)
                   else (let markMessage =
                               MarkFrame sid (if truthy_opt markName then the markName
                                              else audio_token now)
                         in if ok markMessage then (fs @ [markMessage], False)
                            else (fs, True))))"

text \<open>Two behaviours of the socket write: every write returns; the write of a mark frame throws.\<close>

definition writes_succeed :: "frame \<Rightarrow> bool" where
  "writes_succeed f = True"

definition mark_write_fails :: "frame \<Rightarrow> bool" where
  "mark_write_fails f = is_media f"

section \<open>The AI-response collaborator: \<open>AIService\<close>\<close>

datatype role = User | Assistant | System

record ConversationMessage =
  msg_role :: role
  msg_content :: string
  msg_timestamp :: "nat option"

text \<open>\<open>private conversationHistory: Map<string, ConversationMessage[]>\<close>\<close>

type_synonym history = "string \<rightharpoonup> ConversationMessage list"

record ToolCall =
  tc_name :: string
  tc_args :: "(string \<times> string) list"

record AIResponse =
  r_text :: string
  r_toolCalls :: "ToolCall list option"

text \<open>
  What \<open>this.client.chat.completions.create\<close> does: it throws, or it returns a completion
  whose \<open>choices[0]?.message?.content\<close> is a string or is missing.
\<close>

datatype api_result = ApiThrows string | ApiContent "string option"

datatype error = ApiError string | NoResponse | SpeechError | SendError

text \<open>\<open>history.slice(-20)\<close>\<close>

definition last20 :: "'a list \<Rightarrow> 'a list" where
  "last20 xs = drop (length xs - 20) xs"

text \<open>
  \<open>generateResponse\<close>. \<open>history\<close> is the array stored in the map when there is one, so the
  first \<open>push\<close> changes the stored array in place, before the request; a fresh array is
  stored only by the final \<open>set\<close>. The call is taken as one step, its request result given.
\<close>

definition generateResponse ::
  "history \<Rightarrow> string \<Rightarrow> string \<Rightarrow> nat \<Rightarrow> api_result \<Rightarrow> (error + string) \<times> history" where
  "generateResponse h userMessage callId now res =
     (let user = \<lparr>msg_role = User, msg_content = userMessage, msg_timestamp = Some now\<rparr>;
          hist = (case h callId of None \<Rightarrow> [user] | Some old \<Rightarrow> old @ [user]);
          h1 = (case h callId of None \<Rightarrow> h | Some old \<Rightarrow> h(callId \<mapsto> old @ [user]))
      in case res of
           ApiThrows e \<Rightarrow> (Inl (ApiError e), h1)
         | ApiContent c \<Rightarrow>
             if \<not> truthy_opt c then (Inl NoResponse, h1)
             else (Inr (trim (the c)),
                   h1(callId \<mapsto> last20 (hist @
                       [\<lparr>msg_role = Assistant, msg_content = the c, msg_timestamp = Some now\<rparr>]))))"

definition clearConversationHistory :: "history \<Rightarrow> string \<Rightarrow> history" where
  "clearConversationHistory h callId = h(callId := None)"

definition getConversationHistory :: "history \<Rightarrow> string \<Rightarrow> ConversationMessage list" where
  "getConversationHistory h callId = (case h callId of None \<Rightarrow> [] | Some hist \<Rightarrow> hist)"

definition fallbackResponse :: AIResponse where
  "fallbackResponse =
     \<lparr>r_text = ''I'' @ [CHR 0x27] @ ''m sorry, I encountered an error. Could you please repeat that?'',
      r_toolCalls = None\<rparr>"

text \<open>
  The body of the \<open>try\<close> of \<open>generateResponseWithTools\<close>: \<open>Inl\<close> is a throw. \<open>parse\<close> is
  \<open>JSON.parse\<close> read at the declared type \<open>AIResponse\<close>, \<open>None\<close> when it throws (the text
  is then taken as it is). Both messages are pushed after the request, and the array is
  stored as it is.
\<close>

definition generateResponseWithTools_try ::
  "(string \<Rightarrow> AIResponse option) \<Rightarrow> history \<Rightarrow> string \<Rightarrow> string \<Rightarrow> api_result
     \<Rightarrow> error + (AIResponse \<times> history)" where
  "generateResponseWithTools_try parse h userMessage callId res =
     (let hist = (case h callId of None \<Rightarrow> [] | Some old \<Rightarrow> old)
      in case res of
           ApiThrows e \<Rightarrow> Inl (ApiError e)
         | ApiContent c \<Rightarrow>
             if \<not> truthy_opt c then Inl NoResponse
             else (let aiResponse = (case parse (the c) of
                                       Some r \<Rightarrow> r
                                     | None \<Rightarrow> \<lparr>r_text = the c, r_toolCalls = None\<rparr>)
                   in Inr (aiResponse,
                           h(callId \<mapsto> hist @
                               [\<lparr>msg_role = User, msg_content = userMessage, msg_timestamp = None\<rparr>,
                                \<lparr>msg_role = Assistant, msg_content = r_text aiResponse,
                                 msg_timestamp = None\<rparr>]))))"

text \<open>\<open>generateResponseWithTools\<close> with its \<open>catch\<close>, which returns the fallback response.\<close>

definition generateResponseWithTools ::
  "(string \<Rightarrow> AIResponse option) \<Rightarrow> history \<Rightarrow> string \<Rightarrow> string \<Rightarrow> api_result
     \<Rightarrow> (error + AIResponse) \<times> history" where
  "generateResponseWithTools parse h userMessage callId res =
     (case generateResponseWithTools_try parse h userMessage callId res of
        Inl e \<Rightarrow> (Inr fallbackResponse, h)
      | Inr (r, h') \<Rightarrow> (Inr r, h'))"

text \<open>A run of successful \<open>generateResponseWithTools\<close> calls for one call identifier.\<close>

fun askWithTools ::
  "(string \<Rightarrow> AIResponse option) \<Rightarrow> string \<Rightarrow> (string \<times> string) list \<Rightarrow> history \<Rightarrow> history" where
  "askWithTools parse callId [] h = h"
| "askWithTools parse callId ((userMessage, reply) # rest) h =
     askWithTools parse callId rest
       (snd (generateResponseWithTools parse h userMessage callId (ApiContent (Some reply))))"

text \<open>A parser for which no completion is JSON: every completion is taken as plain text.\<close>

definition no_json :: "string \<Rightarrow> AIResponse option" where
  "no_json s = None"

text \<open>The request failed: it threw, or the completion has no content (or an empty one).\<close>

fun api_failed :: "api_result \<Rightarrow> bool" where
  "api_failed (ApiThrows e) = True"
| "api_failed (ApiContent c) = (\<not> truthy_opt c)"

section \<open>Tools: \<open>ToolService.executeToolCall\<close>\<close>

record ToolResult =
  tr_success :: bool
  tr_message :: string
  tr_data :: "string option"

text \<open>
  What the collaborator behind a tool does (the telephony client's \<open>endCall\<close> and
  \<open>transferCall\<close>, the restaurant search request): it returns (the search, with the context it
  found), or it throws with a message.
\<close>

datatype attempt = Succeeds string | Throws string

text \<open>\<open>`${toolCall.args.k}`\<close>: a missing argument prints as \<open>undefined\<close>.\<close>

definition arg :: "ToolCall \<Rightarrow> string \<Rightarrow> string" where
  "arg tc k = (case map_of (tc_args tc) k of None \<Rightarrow> ''undefined'' | Some v \<Rightarrow> v)"

text \<open>
  \<open>executeToolCall\<close> never throws: it and its three handlers catch, and report the failure in
  the result. (The variant of the service without the restaurant search answers that name
  with \<open>Unknown tool\<close>.)
\<close>

definition executeToolCall :: "attempt \<Rightarrow> ToolCall \<Rightarrow> ToolResult" where
  "executeToolCall backend tc =
     (if tc_name tc = ''search_restaurant'' then
        (case backend of
           Succeeds ctx \<Rightarrow> \<lparr>tr_success = True,
                            tr_message = ''Restaurant information retrieved successfully'',
                            tr_data = Some ctx\<rparr>
         | Throws m \<Rightarrow> \<lparr>tr_success = False,
                        tr_message = ''Failed to search restaurant information: '' @ m,
                        tr_data = None\<rparr>)
      else if tc_name tc = ''hang_up_call'' then
        (case backend of
           Succeeds x \<Rightarrow> \<lparr>tr_success = True,
                          tr_message = ''Call ended: '' @ arg tc ''reason'',
                          tr_data = None\<rparr>
         | Throws m \<Rightarrow> \<lparr>tr_success = False,
                        tr_message = ''Failed to end call: '' @ m,
                        tr_data = None\<rparr>)
      else if tc_name tc = ''transfer_call'' then
        (case backend of
           Succeeds x \<Rightarrow> \<lparr>tr_success = True,
                          tr_message = ''Call transferred to '' @ arg tc ''destination'' @ '': ''
                                         @ arg tc ''reason'',
                          tr_data = None\<rparr>
         | Throws m \<Rightarrow> \<lparr>tr_success = False,
                        tr_message = ''Failed to transfer call: '' @ m,
                        tr_data = None\<rparr>)
      else \<lparr>tr_success = False, tr_message = ''Unknown tool: '' @ tc_name tc, tr_data = None\<rparr>)"

section \<open>One orchestration: \<open>processConversation\<close>\<close>

text \<open>
  \<open>processConversation\<close> is an \<open>async\<close> function: it runs until an \<open>await\<close>, and resumes
  when the awaited call returns. An orchestration in flight is a task: the \<open>await\<close> it is
  suspended at, the acknowledgment it created, and the calls it has made so far, in order.
\<close>

datatype cause = ByEcho | ByTimeout | BySendError

datatype action =
    AIRequested string
  | SpeechRequested string
  | ListenerAdded string
  | DeadlineSet nat
  | DeadlineCleared
  | ListenerRemoved
  | Resolved cause
  | Proceeded
  | ToolInvoked ToolCall
  | FollowUpRequested string

text \<open>
  The acknowledgment of one audio send (the promise \<open>audioPlaybackComplete\<close>): the mark name,
  whether \<open>markHandler\<close> is registered on the connection, the due time of the 10 s timer
  while it is pending, and whether the promise is settled.
\<close>

record PendingAck =
  markName :: string
  listening :: bool
  deadline :: "nat option"
  resolved :: bool

datatype phase =
    AwaitAIResponse
  | AwaitSpeech AIResponse
  | AwaitPlayback AIResponse
  | AwaitTool ToolCall "ToolCall list" "(string \<times> ToolResult) list"
  | AwaitFollowUp string string
  | AwaitFollowUpSpeech
  | AwaitFallbackSpeech
  | Finished

record task =
  t_callSid :: string
  t_userMessage :: string
  t_phase :: phase
  t_ack :: "PendingAck option"
  t_log :: "action list"

definition fallbackText :: string where
  "fallbackText = ''I'' @ [CHR 0x27] @ ''m sorry, I didn'' @ [CHR 0x27]
                    @ ''t catch that. Could you please repeat?''"

text \<open>The \<open>catch\<close> of \<open>processConversation\<close>: the apology is sent to speech synthesis.\<close>

definition fallback :: "task \<Rightarrow> task" where
  "fallback t = t\<lparr>t_phase := AwaitFallbackSpeech,
                  t_log := t_log t @ [SpeechRequested fallbackText]\<rparr>"

text \<open>The reply is there: its text is sent to speech synthesis.\<close>

definition onAIResponse :: "AIResponse \<Rightarrow> task \<Rightarrow> task" where
  "onAIResponse resp t = t\<lparr>t_phase := AwaitSpeech resp,
                            t_log := t_log t @ [SpeechRequested (r_text resp)]\<rparr>"

text \<open>
  After \<open>await audioPlaybackComplete\<close>: the loop over \<open>aiResponse.toolCalls\<close> starts, and the
  first tool call is invoked.
\<close>

definition afterAck :: "task \<Rightarrow> task" where
  "afterAck t =
     (case t_phase t of
        AwaitPlayback resp \<Rightarrow>
          (case r_toolCalls resp of
             Some (tc # rest) \<Rightarrow>
               t\<lparr>t_phase := AwaitTool tc rest [],
                 t_log := t_log t @ [Proceeded, ToolInvoked tc]\<rparr>
           | _ \<Rightarrow> t\<lparr>t_phase := Finished, t_log := t_log t @ [Proceeded]\<rparr>)
      | _ \<Rightarrow> t)"

text \<open>
  A call of \<open>resolve()\<close>. The first call settles the promise and the function resumes after
  its \<open>await\<close>; a later call has no effect.
\<close>

definition settle :: "cause \<Rightarrow> task \<Rightarrow> task" where
  "settle c t =
     (case t_ack t of
        None \<Rightarrow> t
      | Some a \<Rightarrow>
          (let t1 = t\<lparr>t_log := t_log t @ [Resolved c]\<rparr>
           in if resolved a then t1
              else afterAck (t1\<lparr>t_ack := Some (a\<lparr>resolved := True\<rparr>)\<rparr>)))"

text \<open>
  \<open>markHandler\<close>, called with a message that parses as a mark event named \<open>n\<close>; it is
  called only while it is registered. On any other message it does nothing.
\<close>

definition markHandler :: "string \<Rightarrow> task \<Rightarrow> task" where
  "markHandler n t =
     (case t_ack t of
        None \<Rightarrow> t
      | Some a \<Rightarrow>
          if listening a \<and> n = markName a
          then settle ByEcho (t\<lparr>t_ack := Some (a\<lparr>listening := False\<rparr>),
                                t_log := t_log t @ [ListenerRemoved]\<rparr>)
          else t)"

text \<open>The callback of the 10 s timer; it runs when the timer is pending and due.\<close>

definition ackTimeout :: "nat \<Rightarrow> task \<Rightarrow> task" where
  "ackTimeout now t =
     (case t_ack t of
        None \<Rightarrow> t
      | Some a \<Rightarrow>
          (case deadline a of
             None \<Rightarrow> t
           | Some due \<Rightarrow>
               if due \<le> now
               then settle ByTimeout (t\<lparr>t_ack := Some (a\<lparr>deadline := None, listening := False\<rparr>),
                                        t_log := t_log t @ [ListenerRemoved]\<rparr>)
               else t))"

text \<open>JavaScript's \<open>aiResponse.toolCalls && aiResponse.toolCalls.length > 0\<close>\<close>

definition hasToolCalls :: "AIResponse \<Rightarrow> bool" where
  "hasToolCalls resp = (case r_toolCalls resp of None \<Rightarrow> False | Some tcs \<Rightarrow> tcs \<noteq> [])"

text \<open>
  \<open>textToSpeech\<close> has returned the audio (\<open>Some\<close>) or thrown (\<open>None\<close>). The result is the task
  and the frames written to the connection. With tool calls, the listener is registered and
  the timer set before the audio is sent with the mark; a send that throws is caught: the
  timer is cleared, the listener removed and the promise resolved.
\<close>

definition onSpeech ::
  "(frame \<Rightarrow> bool) \<Rightarrow> conn_state \<Rightarrow> string option \<Rightarrow> nat \<Rightarrow> byte list option \<Rightarrow> task
     \<Rightarrow> task \<times> frame list" where
  "onSpeech ok cstate sid now speech t =
     (case t_phase t of
        AwaitSpeech resp \<Rightarrow>
          (case speech of
             None \<Rightarrow> (fallback t, [])
           | Some audio \<Rightarrow>
               if hasToolCalls resp then
                 (let name = audio_token now;
                      a = \<lparr>markName = name, listening = True, deadline = Some (now + 10000),
                           resolved = False\<rparr>;
                      t1 = t\<lparr>t_phase := AwaitPlayback resp, t_ack := Some a,
                             t_log := t_log t @ [ListenerAdded name, DeadlineSet (now + 10000)]\<rparr>;
                      (fs, threw) = sendAudioToTwilio ok cstate sid now audio (Some name)
                  in if threw
                     then (settle BySendError
                             (t1\<lparr>t_ack := Some (a\<lparr>deadline := None, listening := False\<rparr>),
                                 t_log := t_log t1 @ [DeadlineCleared, ListenerRemoved]\<rparr>), fs)
                     else (t1, fs))
               else
                 (let (fs, threw) = sendAudioToTwilio ok cstate sid now audio None
                  in if threw then (fallback t, fs) else (t\<lparr>t_phase := Finished\<rparr>, fs)))
      | AwaitFollowUpSpeech \<Rightarrow>
          (case speech of
             None \<Rightarrow> (fallback t, [])
           | Some audio \<Rightarrow>
               (let (fs, threw) = sendAudioToTwilio ok cstate sid now audio None
                in if threw then (fallback t, fs) else (t\<lparr>t_phase := Finished\<rparr>, fs)))
      | AwaitFallbackSpeech \<Rightarrow>
          (case speech of
             None \<Rightarrow> (t\<lparr>t_phase := Finished\<rparr>, [])
           | Some audio \<Rightarrow>
               (let (fs, threw) = sendAudioToTwilio ok cstate sid now audio None
                in (t\<lparr>t_phase := Finished\<rparr>, fs)))
      | _ \<Rightarrow> (t, []))"

text \<open>
  \<open>executeToolCall\<close> has returned. A successful \<open>hang_up_call\<close> returns from
  \<open>processConversation\<close>; otherwise the next tool call is invoked, and after the last one the
  follow-up reply is requested with the prompt built from the results. The template of the
  prompt is a parameter: \<open>prompt userMessage toolResults\<close>.
\<close>

definition onToolResult ::
  "(string \<Rightarrow> (string \<times> ToolResult) list \<Rightarrow> string) \<Rightarrow> string \<Rightarrow> attempt \<Rightarrow> task \<Rightarrow> task" where
  "onToolResult prompt callSid backend t =
     (case t_phase t of
        AwaitTool tc rest results \<Rightarrow>
          (let result = executeToolCall backend tc;
               toolResults = results @ [(tc_name tc, result)]
           in if tc_name tc = ''hang_up_call'' \<and> tr_success result
              then t\<lparr>t_phase := Finished\<rparr>
              else (case rest of
                      next # rest' \<Rightarrow>
                        t\<lparr>t_phase := AwaitTool next rest' toolResults,
                          t_log := t_log t @ [ToolInvoked next]\<rparr>
                    | [] \<Rightarrow>
                        if toolResults \<noteq> []
                        then (let p = prompt (t_userMessage t) toolResults
                              in t\<lparr>t_phase := AwaitFollowUp p callSid,
                                   t_log := t_log t @ [FollowUpRequested p]\<rparr>)
                        else t\<lparr>t_phase := Finished\<rparr>))
      | _ \<Rightarrow> t)"

text \<open>\<open>generateResponse\<close> has returned the follow-up reply, or thrown.\<close>

definition onFollowUp :: "error + string \<Rightarrow> task \<Rightarrow> task" where
  "onFollowUp r t =
     (case t_phase t of
        AwaitFollowUp p cid \<Rightarrow>
          (case r of
             Inl e \<Rightarrow> fallback t
           | Inr reply \<Rightarrow> t\<lparr>t_phase := AwaitFollowUpSpeech,
                              t_log := t_log t @ [SpeechRequested reply]\<rparr>)
      | _ \<Rightarrow> t)"

section \<open>The connection handler: \<open>setupWebSocketServer\<close>\<close>

datatype CallStatus = INITIATED | CONNECTED | IN_PROGRESS | ENDED | FAILED

record TranscriptEntry =
  te_text :: string
  te_timestamp :: nat
  te_isFinal :: bool
  te_confidence :: nat
  te_speaker :: string

record ResponseEntry =
  re_text :: string
  re_timestamp :: nat
  re_processingTime :: nat

record CallSession =
  callSid :: string
  phoneNumber :: string
  status :: CallStatus
  startTime :: nat
  endTime :: "nat option"
  transcripts :: "TranscriptEntry list"
  aiResponses :: "ResponseEntry list"

text \<open>
  A transcript event of the speech backend. The confidence is a number the handler only
  stores (\<open>result.confidence || 0\<close>); it is kept as a natural number.
\<close>

record TranscriptResult =
  tx_text :: string
  tx_isFinal :: bool
  tx_confidence :: "nat option"

text \<open>
  What the handler does beyond its own variables, in order: frames written to the
  connection, audio forwarded to the speech backend, utterances handed to
  \<open>processConversation\<close>, and the calls of \<open>cleanup\<close> and of the two handlers around it.
\<close>

datatype effect =
    Sent frame
  | AudioForwarded "byte list"
  | Flushed string
  | GreetingRequested
  | IdleTimerCleared
  | SpeechBackendClosed
  | ConnectionDeleted string
  | CallDeleted string
  | HistoryCleared string
  | ConnectionCloseCalled

text \<open>
  The variables of one accepted connection (the closure of the \<open>request\<close> handler), the
  shared maps \<open>state.activeConnections\<close> and \<open>state.activeCalls\<close> (their keys: the values are
  the connection and session objects themselves), the history of \<open>services.ai\<close>, the
  connection's state, and the event loop: the clock, the pending timers (by due time) and the
  calls in flight.
\<close>

record session =
  connectionId :: string
  callSession :: "CallSession option"
  streamSid :: "string option"
  connectionTimeout :: bool
  deepgramConnection :: bool
  conversationBuffer :: string
  lastSpeechTime :: nat
  activeConnections :: "string \<rightharpoonup> unit"
  activeCalls :: "string \<rightharpoonup> unit"
  conversationHistory :: history
  connState :: conn_state
  now :: nat
  idleTimer :: "nat option"
  greetingTimers :: "nat list"
  greetingsInFlight :: nat
  quietTimers :: "nat list"
  transcriptHandlers :: bool
  tasks :: "task list"
  effects :: "effect list"

text \<open>
  What the handler calls synchronously and does not own: the socket write, the creation of
  the speech backend connection (\<open>False\<close> when it throws), \<open>JSON.parse\<close> of a completion, and
  the template of the follow-up prompt.
\<close>

record env =
  sendUTF_ok :: "frame \<Rightarrow> bool"
  createLiveTranscription_ok :: bool
  json_parse :: "string \<Rightarrow> AIResponse option"
  followUpPrompt :: "string \<Rightarrow> (string \<times> ToolResult) list \<Rightarrow> string"

text \<open>
  The \<open>request\<close> handler accepts a connection at time \<open>t\<close>: the connection is registered under
  \<open>Date.now().toString()\<close>, no call session exists yet, and the 2-minute timer is set.
\<close>

definition accept :: "nat \<Rightarrow> (string \<rightharpoonup> unit) \<Rightarrow> (string \<rightharpoonup> unit) \<Rightarrow> history \<Rightarrow> session" where
  "accept t conns calls hist =
     \<lparr>connectionId = decimal t,
      callSession = None,
      streamSid = None,
      connectionTimeout = True,
      deepgramConnection = False,
      conversationBuffer = [],
      lastSpeechTime = t,
      activeConnections = conns(decimal t \<mapsto> ()),
      activeCalls = calls,
      conversationHistory = hist,
      connState = ConnOpen,
      now = t,
      idleTimer = Some (t + 2 * 60 * 1000),
      greetingTimers = [],
      greetingsInFlight = 0,
      quietTimers = [],
      transcriptHandlers = False,
      tasks = [],
      effects = []\<rparr>"

definition emit :: "effect list \<Rightarrow> session \<Rightarrow> session" where
  "emit es s = s\<lparr>effects := effects s @ es\<rparr>"

text \<open>\<open>cleanup()\<close>\<close>

definition cleanup :: "session \<Rightarrow> session" where
  "cleanup s =
     (let s1 = (if connectionTimeout s
                then emit [IdleTimerCleared] (s\<lparr>idleTimer := None, connectionTimeout := False\<rparr>)
                else s);
          s2 = (if deepgramConnection s1
                then emit [SpeechBackendClosed] (s1\<lparr>deepgramConnection := False\<rparr>)
                else s1);
          s3 = emit [ConnectionDeleted (connectionId s2)]
                 (s2\<lparr>activeConnections := (activeConnections s2)(connectionId s2 := None)\<rparr>)
      in case callSession s3 of
           None \<Rightarrow> s3
         | Some cs \<Rightarrow> emit [CallDeleted (callSid cs)]
                        (s3\<lparr>activeCalls := (activeCalls s3)(callSid cs := None)\<rparr>))"

text \<open>The state without the record of effects: the variables, the maps and the event loop.\<close>

definition observable :: "session \<Rightarrow> session" where
  "observable s = s\<lparr>effects := []\<rparr>"

text \<open>\<open>handleCallStart\<close>, for a start event with its stream and call identifiers.\<close>

definition handleCallStart :: "env \<Rightarrow> string \<Rightarrow> string \<Rightarrow> session \<Rightarrow> session" where
  "handleCallStart E msgStreamSid cid s =
     (let s1 = s\<lparr>streamSid := Some msgStreamSid\<rparr>;
          s2 = (if connectionTimeout s1
                then emit [IdleTimerCleared] (s1\<lparr>idleTimer := None, connectionTimeout := False\<rparr>)
                else s1);
          s3 = s2\<lparr>callSession := Some \<lparr>callSid = cid, phoneNumber = [], status = CONNECTED,
                                         startTime = now s2, endTime = None, transcripts = [],
                                         aiResponses = []\<rparr>,
                  activeCalls := (activeCalls s2)(cid \<mapsto> ())\<rparr>;
          s4 = (if createLiveTranscription_ok E
                then s3\<lparr>deepgramConnection := True, transcriptHandlers := True\<rparr>
                else s3)
      in s4\<lparr>greetingTimers := greetingTimers s4 @ [now s4 + 1000]\<rparr>)"

text \<open>\<open>handleMediaData\<close>, for a media event with its payload.\<close>

definition handleMediaData :: "string \<Rightarrow> session \<Rightarrow> session" where
  "handleMediaData pl s =
     (if \<not> truthy_opt (streamSid s) \<or> \<not> deepgramConnection s then s
      else emit [AudioForwarded (b64decode pl)] s)"

text \<open>\<open>handleCallStop\<close>, for a stop event with its call identifier.\<close>

definition handleCallStop :: "string \<Rightarrow> session \<Rightarrow> session" where
  "handleCallStop cid s =
     cleanup
       (case callSession s of
          None \<Rightarrow> s
        | Some cs \<Rightarrow>
            emit [HistoryCleared cid]
              (s\<lparr>callSession := Some (cs\<lparr>status := ENDED, endTime := Some (now s)\<rparr>),
                 conversationHistory := clearConversationHistory (conversationHistory s) cid\<rparr>))"

text \<open>An inbound message, as the \<open>message\<close> handler reads it.\<close>

datatype inbound =
    EvConnected
  | EvStart string string
  | EvMedia string
  | EvStop string
  | EvMark string
  | EvOther string
  | Malformed
  | Binary

text \<open>
  Storing the resumed task. When \<open>processConversation\<close> returns, the timer callback that
  awaited it clears the buffer.
\<close>

definition resume :: "nat \<Rightarrow> task \<Rightarrow> session \<Rightarrow> session" where
  "resume tid t' s =
     (let s' = s\<lparr>tasks := (tasks s)[tid := t']\<rparr>
      in if t_phase t' = Finished \<and> t_phase (tasks s ! tid) \<noteq> Finished
         then s'\<lparr>conversationBuffer := []\<rparr> else s')"

text \<open>
  A message is given to the \<open>message\<close> listeners in the order they were registered: the
  handler of the connection, then the \<open>markHandler\<close> of every orchestration that has one
  registered.
\<close>

definition deliverMark :: "string \<Rightarrow> session \<Rightarrow> session" where
  "deliverMark n s =
     (let ts = map (markHandler n) (tasks s);
          s' = s\<lparr>tasks := ts\<rparr>
      in if list_ex (\<lambda>(t, t'). t_phase t' = Finished \<and> t_phase t \<noteq> Finished) (zip (tasks s) ts)
         then s'\<lparr>conversationBuffer := []\<rparr> else s')"

definition onMessage :: "env \<Rightarrow> inbound \<Rightarrow> session \<Rightarrow> session" where
  "onMessage E m s =
     (case m of
        EvConnected \<Rightarrow> s
      | EvStart msgStreamSid cid \<Rightarrow> handleCallStart E msgStreamSid cid s
      | EvMedia pl \<Rightarrow> handleMediaData pl s
      | EvStop cid \<Rightarrow> handleCallStop cid s
      | EvMark n \<Rightarrow> deliverMark n s
      | EvOther e \<Rightarrow> s
      | Malformed \<Rightarrow> s
      | Binary \<Rightarrow> s)"

text \<open>\<open>onTranscript\<close>: a final, non-blank fragment is logged, buffered and starts a 1 s timer.\<close>

definition onTranscript :: "TranscriptResult \<Rightarrow> session \<Rightarrow> session" where
  "onTranscript r s =
     (if tx_isFinal r \<and> truthy (trim (tx_text r)) then
        (let s1 = (case callSession s of
                     None \<Rightarrow> s
                   | Some cs \<Rightarrow>
                       s\<lparr>callSession := Some (cs\<lparr>transcripts := transcripts cs @
                            [\<lparr>te_text = tx_text r, te_timestamp = now s, te_isFinal = tx_isFinal r,
                              te_confidence = (case tx_confidence r of None \<Rightarrow> 0 | Some c \<Rightarrow> c),
                              te_speaker = ''user''\<rparr>]\<rparr>)\<rparr>)
         in s1\<lparr>conversationBuffer := conversationBuffer s1 @ tx_text r @ '' '',
                lastSpeechTime := now s1,
                quietTimers := quietTimers s1 @ [now s1 + 1000]\<rparr>)
      else s)"

text \<open>
  \<open>processConversation(userMessage)\<close> up to its first \<open>await\<close>: without a session or a stream
  identifier it returns at once (and the buffer is cleared); otherwise the reply is requested
  and the orchestration is in flight.
\<close>

definition processConversation :: "string \<Rightarrow> session \<Rightarrow> session" where
  "processConversation userMessage s =
     (let s1 = emit [Flushed userMessage] s
      in case callSession s1 of
           None \<Rightarrow> s1\<lparr>conversationBuffer := []\<rparr>
         | Some cs \<Rightarrow>
             if \<not> truthy_opt (streamSid s1) then s1\<lparr>conversationBuffer := []\<rparr>
             else s1\<lparr>tasks := tasks s1 @
                     [\<lparr>t_callSid = callSid cs, t_userMessage = userMessage,
                       t_phase = AwaitAIResponse, t_ack = None,
                       t_log = [AIRequested userMessage]\<rparr>]\<rparr>)"

text \<open>The callback of the oldest pending quiet-window timer; it runs once the timer is due.\<close>

definition quietTimer :: "session \<Rightarrow> session" where
  "quietTimer s =
     (case quietTimers s of
        [] \<Rightarrow> s
      | due # rest \<Rightarrow>
          if now s < due then s
          else (let s1 = s\<lparr>quietTimers := rest\<rparr>
                in if now s1 - lastSpeechTime s1 \<ge> 1000 \<and> truthy (trim (conversationBuffer s1))
                   then processConversation (trim (conversationBuffer s1)) s1
                   else s1))"

text \<open>The callback of the 2-minute timer.\<close>

definition idleTimeout :: "session \<Rightarrow> session" where
  "idleTimeout s =
     (case idleTimer s of
        None \<Rightarrow> s
      | Some due \<Rightarrow>
          if now s < due then s
          else (let s1 = cleanup (s\<lparr>idleTimer := None\<rparr>)
                in emit [ConnectionCloseCalled]
                     (s1\<lparr>connState := (if connState s1 = ConnOpen then ConnEnding
                                         else connState s1)\<rparr>)))"

text \<open>The greeting: its timer fires, and later its speech returns and is sent without a mark.\<close>

definition greetingDue :: "session \<Rightarrow> session" where
  "greetingDue s =
     (case greetingTimers s of
        [] \<Rightarrow> s
      | due # rest \<Rightarrow>
          if now s < due then s
          else emit [GreetingRequested]
                 (s\<lparr>greetingTimers := rest, greetingsInFlight := greetingsInFlight s + 1\<rparr>))"

definition greetingSpeech :: "env \<Rightarrow> byte list option \<Rightarrow> session \<Rightarrow> session" where
  "greetingSpeech E speech s =
     (if greetingsInFlight s = 0 then s
      else (let s1 = s\<lparr>greetingsInFlight := greetingsInFlight s - 1\<rparr>
            in case speech of
                 None \<Rightarrow> s1
               | Some audio \<Rightarrow>
                   emit (map Sent (fst (sendAudioToTwilio (sendUTF_ok E) (connState s1)
                                          (streamSid s1) (now s1) audio None))) s1))"

text \<open>
  A completion request returns for task \<open>tid\<close>: the first reply (by
  \<open>generateResponseWithTools\<close>, then recorded in the session's response log) or the follow-up
  (by \<open>generateResponse\<close>). A call of the collaborator is one step, taken when its request
  returns.
\<close>

definition onCompletion :: "env \<Rightarrow> nat \<Rightarrow> api_result \<Rightarrow> session \<Rightarrow> session" where
  "onCompletion E tid res s =
     (if tid < length (tasks s) then
        (let t = tasks s ! tid
         in case t_phase t of
              AwaitAIResponse \<Rightarrow>
                (let (r, h') = generateResponseWithTools (json_parse E) (conversationHistory s)
                                 (t_userMessage t) (t_callSid t) res;
                     s1 = s\<lparr>conversationHistory := h'\<rparr>
                 in case (r, callSession s1) of
                      (Inr resp, Some cs) \<Rightarrow>
                        resume tid (onAIResponse resp t)
                          (s1\<lparr>callSession := Some (cs\<lparr>aiResponses := aiResponses cs @
                                 [\<lparr>re_text = r_text resp, re_timestamp = now s1,
                                   re_processingTime = 0\<rparr>]\<rparr>)\<rparr>)
                    | _ \<Rightarrow> resume tid (fallback t) s1)
            | AwaitFollowUp p cid \<Rightarrow>
                (let (r, h') = generateResponse (conversationHistory s) p cid (now s) res
                 in resume tid (onFollowUp r t) (s\<lparr>conversationHistory := h'\<rparr>))
            | _ \<Rightarrow> s)
      else s)"

text \<open>Speech synthesis returns for task \<open>tid\<close>.\<close>

definition onSpeechDone :: "env \<Rightarrow> nat \<Rightarrow> byte list option \<Rightarrow> session \<Rightarrow> session" where
  "onSpeechDone E tid speech s =
     (if tid < length (tasks s) then
        (let (t', fs) = onSpeech (sendUTF_ok E) (connState s) (streamSid s) (now s) speech
                          (tasks s ! tid)
         in resume tid t' (emit (map Sent fs) s))
      else s)"

text \<open>The 10 s timer of task \<open>tid\<close> fires.\<close>

definition onAckDeadline :: "nat \<Rightarrow> session \<Rightarrow> session" where
  "onAckDeadline tid s =
     (if tid < length (tasks s) then resume tid (ackTimeout (now s) (tasks s ! tid)) s else s)"

text \<open>The tool call of task \<open>tid\<close> returns.\<close>

definition onToolReturn :: "env \<Rightarrow> nat \<Rightarrow> attempt \<Rightarrow> session \<Rightarrow> session" where
  "onToolReturn E tid backend s =
     (if tid < length (tasks s) then
        (case callSession s of
           None \<Rightarrow> resume tid (case t_phase (tasks s ! tid) of
                                  AwaitTool tc rest results \<Rightarrow> fallback (tasks s ! tid)
                                | _ \<Rightarrow> tasks s ! tid) s
         | Some cs \<Rightarrow>
             resume tid (onToolResult (followUpPrompt E) (callSid cs) backend (tasks s ! tid)) s)
      else s)"

text \<open>What the event loop runs next.\<close>

datatype event =
    Tick nat
  | Receive inbound
  | ConnClose
  | ConnError
  | IdleTimeout
  | GreetingDue
  | GreetingSpeech "byte list option"
  | QuietTimer
  | Transcript TranscriptResult
  | Completion nat api_result
  | Speech nat "byte list option"
  | AckDeadline nat
  | ToolReturn nat attempt

definition step :: "env \<Rightarrow> event \<Rightarrow> session \<Rightarrow> session" where
  "step E ev s =
     (case ev of
        Tick d \<Rightarrow> s\<lparr>now := now s + d\<rparr>
      | Receive m \<Rightarrow> onMessage E m s
      | ConnClose \<Rightarrow> cleanup (s\<lparr>connState := ConnClosed\<rparr>)
      | ConnError \<Rightarrow> cleanup s
      | IdleTimeout \<Rightarrow> idleTimeout s
      | GreetingDue \<Rightarrow> greetingDue s
      | GreetingSpeech speech \<Rightarrow> greetingSpeech E speech s
      | QuietTimer \<Rightarrow> quietTimer s
      | Transcript r \<Rightarrow> (if transcriptHandlers s then onTranscript r s else s)
      | Completion tid res \<Rightarrow> onCompletion E tid res s
      | Speech tid speech \<Rightarrow> onSpeechDone E tid speech s
      | AckDeadline tid \<Rightarrow> onAckDeadline tid s
      | ToolReturn tid backend \<Rightarrow> onToolReturn E tid backend s)"

fun run :: "env \<Rightarrow> event list \<Rightarrow> session \<Rightarrow> session" where
  "run E [] s = s"
| "run E (ev # evs) s = run E evs (step E ev s)"

section \<open>Properties of a log, of a task and of a run\<close>

text \<open>
  In a log, every tool call is invoked after a \<open>resolve()\<close> with one of the given causes
  (\<open>seen\<close>: one has been passed already).
\<close>

fun gated_by :: "cause list \<Rightarrow> bool \<Rightarrow> action list \<Rightarrow> bool" where
  "gated_by cs seen [] = True"
| "gated_by cs seen (Resolved c # as) = gated_by cs (seen \<or> c \<in> set cs) as"
| "gated_by cs seen (ToolInvoked tc # as) = (seen \<and> gated_by cs seen as)"
| "gated_by cs seen (a # as) = gated_by cs seen as"

text \<open>
  In a log, every \<open>resolve()\<close> comes directly after the removal of the listener
  (\<open>prev\<close>: the entry before is such a removal).
\<close>

fun detached :: "bool \<Rightarrow> action list \<Rightarrow> bool" where
  "detached prev [] = True"
| "detached prev (Resolved c # as) = (prev \<and> detached False as)"
| "detached prev (ListenerRemoved # as) = detached True as"
| "detached prev (a # as) = detached False as"

fun is_Resolved :: "action \<Rightarrow> bool" where
  "is_Resolved (Resolved c) = True"
| "is_Resolved a = False"

text \<open>The entries that only a settled acknowledgment allows.\<close>

fun after_settling :: "action \<Rightarrow> bool" where
  "after_settling (Resolved c) = True"
| "after_settling Proceeded = True"
| "after_settling (ToolInvoked tc) = True"
| "after_settling (FollowUpRequested p) = True"
| "after_settling a = False"

text \<open>The requests the claims speak of: tool calls and follow-up replies.\<close>

fun is_request :: "action \<Rightarrow> bool" where
  "is_request (ToolInvoked tc) = True"
| "is_request (FollowUpRequested p) = True"
| "is_request a = False"

text \<open>An orchestration is in flight until \<open>processConversation\<close> returns.\<close>

definition in_flight :: "task \<Rightarrow> bool" where
  "in_flight t = (t_phase t \<noteq> Finished)"

text \<open>Its acknowledgment is outstanding while the promise is not settled.\<close>

definition outstanding :: "task \<Rightarrow> bool" where
  "outstanding t = (case t_ack t of None \<Rightarrow> False | Some a \<Rightarrow> \<not> resolved a)"

fun before_playback :: "phase \<Rightarrow> bool" where
  "before_playback AwaitAIResponse = True"
| "before_playback (AwaitSpeech r) = True"
| "before_playback p = False"

fun awaiting_playback :: "phase \<Rightarrow> bool" where
  "awaiting_playback (AwaitPlayback r) = hasToolCalls r"
| "awaiting_playback p = False"

fun without_ack :: "phase \<Rightarrow> bool" where
  "without_ack (AwaitPlayback r) = False"
| "without_ack (AwaitTool tc rest results) = False"
| "without_ack (AwaitFollowUp p cid) = False"
| "without_ack AwaitFollowUpSpeech = False"
| "without_ack p = True"

text \<open>
  The shape of a task in every reachable state: the acknowledgment exists from the send
  with the mark on; while it is not settled the listener is registered, the timer is pending,
  the task waits for the playback and nothing after the \<open>await\<close> has happened; once settled the
  listener is removed and the function has resumed exactly once.
\<close>

definition task_wf :: "task \<Rightarrow> bool" where
  "task_wf t =
     (gated_by [ByEcho, ByTimeout, BySendError] False (t_log t)
      \<and> detached False (t_log t)
      \<and> (case t_ack t of
           None \<Rightarrow> without_ack (t_phase t) \<and> \<not> list_ex after_settling (t_log t)
         | Some a \<Rightarrow>
             if resolved a
             then \<not> listening a \<and> \<not> before_playback (t_phase t)
                  \<and> \<not> awaiting_playback (t_phase t)
                  \<and> count_list (t_log t) Proceeded = 1
                  \<and> list_ex is_Resolved (t_log t)
             else listening a \<and> deadline a \<noteq> None \<and> awaiting_playback (t_phase t)
                  \<and> \<not> list_ex after_settling (t_log t)))"

text \<open>
  The shape of a session in every reachable state: its tasks are as above, and an
  orchestration exists only once a call session does.
\<close>

definition session_wf :: "session \<Rightarrow> bool" where
  "session_wf s =
     (list_all task_wf (tasks s)
      \<and> (tasks s = [] \<or> callSession s \<noteq> None))"

text \<open>
  Time passing with every quiet-window timer firing when it is due: the timers pending at
  the start (\<open>dues\<close>) that fall due before \<open>target\<close> fire one after the other, each at its
  due time; then the clock reaches \<open>target\<close>.
\<close>

fun fireDue :: "env \<Rightarrow> nat \<Rightarrow> nat list \<Rightarrow> session \<Rightarrow> session" where
  "fireDue E target [] s = s"
| "fireDue E target (due # dues) s =
     (if due \<le> target
      then fireDue E target dues (step E QuietTimer (step E (Tick (due - now s)) s))
      else s)"

definition advance :: "env \<Rightarrow> nat \<Rightarrow> session \<Rightarrow> session" where
  "advance E d s =
     (let target = now s + d;
          s1 = fireDue E target (quietTimers s) s
      in step E (Tick (target - now s1)) s1)"

text \<open>Fragments arriving one after the other, each after its gap in milliseconds.\<close>

fun feed :: "env \<Rightarrow> (nat \<times> TranscriptResult) list \<Rightarrow> session \<Rightarrow> session" where
  "feed E [] s = s"
| "feed E ((gap, r) # frs) s = feed E frs (step E (Transcript r) (advance E gap s))"

text \<open>The utterances handed to \<open>processConversation\<close>, in order.\<close>

fun flushes :: "effect list \<Rightarrow> string list" where
  "flushes [] = []"
| "flushes (Flushed u # es) = u # flushes es"
| "flushes (e # es) = flushes es"

section \<open>Concrete collaborators, for the runs evaluated below\<close>

text \<open>
  A completion that reads \<open>bye\<close> parses to a farewell with one \<open>hang_up_call\<close>; one that reads
  \<open>menu\<close> to a reply with a restaurant search and a transfer; nothing else is JSON.
\<close>

definition hangUp :: ToolCall where
  "hangUp = \<lparr>tc_name = ''hang_up_call'', tc_args = [(''reason'', ''user_requested'')]\<rparr>"

definition searchMenu :: ToolCall where
  "searchMenu = \<lparr>tc_name = ''search_restaurant'', tc_args = [(''query'', ''menu'')]\<rparr>"

definition goodbye :: AIResponse where
  "goodbye = \<lparr>r_text = ''Goodbye'', r_toolCalls = Some [hangUp, searchMenu]\<rparr>"

definition parse_demo :: "string \<Rightarrow> AIResponse option" where
  "parse_demo c = (if c = ''bye'' then Some goodbye else None)"

definition prompt_demo :: "string \<Rightarrow> (string \<times> ToolResult) list \<Rightarrow> string" where
  "prompt_demo userMessage toolResults = userMessage"

definition env_ok :: env where
  "env_ok = \<lparr>sendUTF_ok = writes_succeed, createLiveTranscription_ok = True,
             json_parse = parse_demo, followUpPrompt = prompt_demo\<rparr>"

definition env_mark_fails :: env where
  "env_mark_fails = \<lparr>sendUTF_ok = mark_write_fails, createLiveTranscription_ok = True,
                     json_parse = parse_demo, followUpPrompt = prompt_demo\<rparr>"

definition final :: "string \<Rightarrow> TranscriptResult" where
  "final txt = \<lparr>tx_text = txt, tx_isFinal = True, tx_confidence = None\<rparr>"

text \<open>A connection accepted at time 0 on an idle server.\<close>

definition fresh :: session where
  "fresh = accept 0 Map.empty Map.empty Map.empty"

text \<open>The call starts, the caller says \<open>bye\<close>, and the quiet window passes.\<close>

definition said_bye :: "event list" where
  "said_bye = [Receive (EvStart ''MZ1'' ''CA1''), Transcript (final ''bye''), Tick 1000, QuietTimer]"

text \<open>Then the reply arrives and its speech is synthesized and sent with a mark.\<close>

definition spoke_goodbye :: "event list" where
  "spoke_goodbye = said_bye @ [Completion 0 (ApiContent (Some ''bye'')), Speech 0 (Some [1, 2, 3, 4])]"

text \<open>The caller speaks again while the first orchestration is in flight; both replies arrive.\<close>

definition spoke_again :: "event list" where
  "spoke_again = said_bye @ [Transcript (final ''bye''), Tick 1000]"

definition said_bye_twice :: "event list" where
  "said_bye_twice =
     spoke_again @ [QuietTimer,
                 Completion 0 (ApiContent (Some ''bye'')), Speech 0 (Some [1, 2, 3, 4]),
                 Completion 1 (ApiContent (Some ''bye'')), Speech 1 (Some [1, 2, 3, 4])]"

text \<open>The promise of a task is settled.\<close>

definition settled :: "task \<Rightarrow> bool" where
  "settled t = (case t_ack t of None \<Rightarrow> False | Some a \<Rightarrow> resolved a)"

text \<open>
  The debouncer right after a fragment: the buffer is \<open>buf\<close>, not blank; the fragment came
  now; the pending timers are in order and all in the future, the last one set by this
  fragment and the others due before it; the utterances flushed so far are \<open>F\<close>.
\<close>

definition buffering :: "session \<Rightarrow> string \<Rightarrow> string list \<Rightarrow> bool" where
  "buffering s buf F =
     (transcriptHandlers s \<and> conversationBuffer s = buf \<and> truthy (trim buf)
      \<and> lastSpeechTime s = now s \<and> flushes (effects s) = F
      \<and> quietTimers s \<noteq> [] \<and> sorted (quietTimers s)
      \<and> last (quietTimers s) = now s + 1000
      \<and> (\<forall>d \<in> set (quietTimers s). now s < d)
      \<and> (\<forall>d \<in> set (butlast (quietTimers s)). d < now s + 1000))"

text \<open>
  The call has started. Two fragments arrive 500 ms apart; in the same millisecond; and 1 ms
  apart, with both timers run 1 ms after the first is due.
\<close>

definition started :: session where
  "started = run env_ok [Receive (EvStart ''MZ1'' ''CA1'')] fresh"

definition two_fragments :: "(nat \<times> TranscriptResult) list" where
  "two_fragments = [(0, final ''book''), (500, final ''a table'')]"

definition same_instant :: "(nat \<times> TranscriptResult) list" where
  "same_instant = [(0, final ''book''), (0, final ''a table'')]"

definition late_by_1ms :: "event list" where
  "late_by_1ms = [Transcript (final ''book''), Tick 1, Transcript (final ''a table''), Tick 1000,
                  QuietTimer, QuietTimer]"

text \<open>
  The caller says \<open>hello\<close> and, while the reply is prepared, \<open>book\<close> and \<open>a table\<close> 500 ms
  apart: with the reply spoken between the two fragments, and with the reply still awaited
  when the quiet window has passed.
\<close>

definition said_hello :: "event list" where
  "said_hello = [Transcript (final ''hello''), Tick 1000, QuietTimer, Tick 1000]"

definition reply_between :: "event list" where
  "reply_between =
     said_hello @ [Transcript (final ''book''),
                   Completion 0 (ApiContent (Some ''Hi there'')), Speech 0 (Some [1, 2, 3, 4]),
                   Tick 500, Transcript (final ''a table''),
                   Tick 500, QuietTimer, Tick 500, QuietTimer]"

definition reply_pending :: "event list" where
  "reply_pending =
     said_hello @ [Transcript (final ''book''), Tick 500, Transcript (final ''a table''),
                   Tick 500, QuietTimer, Tick 500, QuietTimer]"

section \<open>Theorems\<close>

subsection \<open>Base64 round trip\<close>

lemma dec6_enc6: "n < 64 \<Longrightarrow> dec6 (enc6 n) = Some n"
  by (auto simp: dec6_def enc6_def Let_def)

lemma dec6_pad: "dec6 CHR ''='' = None"
  by (simp add: dec6_def)

lemma recombine24:
  fixes n :: nat
  shows "((n div 262144 * 64 + n div 4096 mod 64) * 64 + n div 64 mod 64) * 64 + n mod 64 = n"
proof -
  have 1: "n div 262144 * 64 + n div 4096 mod 64 = n div 4096"
    using div_mult_mod_eq[of "n div 4096" 64] by (simp add: div_mult2_eq[symmetric])
  have 2: "n div 4096 * 64 + n div 64 mod 64 = n div 64"
    using div_mult_mod_eq[of "n div 64" 64] by (simp add: div_mult2_eq[symmetric])
  show ?thesis unfolding 1 2 by simp
qed

lemma recombine18:
  fixes n :: nat
  shows "(n div 4096 * 64 + n div 64 mod 64) * 64 + n mod 64 = n"
proof -
  have 2: "n div 4096 * 64 + n div 64 mod 64 = n div 64"
    using div_mult_mod_eq[of "n div 64" 64] by (simp add: div_mult2_eq[symmetric])
  show ?thesis unfolding 2 by simp
qed

lemma dec_group3:
  assumes "n < 16777216"
  shows "b64decode ([enc6 (n div 262144), enc6 (n div 4096 mod 64), enc6 (n div 64 mod 64),
                     enc6 (n mod 64)] @ rest)
       = [of_nat (n div 65536), of_nat (n div 256 mod 256), of_nat (n mod 256)] @ b64decode rest"
proof -
  have "n div 262144 < 64" using assms by simp
  note d = dec6_enc6[OF this] dec6_enc6[of "n div 4096 mod 64"]
    dec6_enc6[of "n div 64 mod 64"] dec6_enc6[of "n mod 64"]
  show ?thesis
    by (simp only: b64decode.simps append_Cons append_Nil d option.case prod.case Let_def
        recombine24 mod_less_divisor zero_less_numeral simp_thms)
qed

lemma dec_group2:
  assumes "n < 262144"
  shows "b64decode [enc6 (n div 4096), enc6 (n div 64 mod 64), enc6 (n mod 64), CHR ''='']
       = [of_nat (n div 1024), of_nat (n div 4 mod 256)]"
proof -
  have "n div 4096 < 64" using assms by simp
  note d = dec6_enc6[OF this] dec6_enc6[of "n div 64 mod 64"] dec6_enc6[of "n mod 64"]
  show ?thesis
    by (simp only: b64decode.simps d dec6_pad option.case prod.case Let_def
        recombine18 mod_less_divisor zero_less_numeral simp_thms)
qed

lemma dec_group1:
  assumes "n < 4096"
  shows "b64decode [enc6 (n div 64), enc6 (n mod 64), CHR ''='', CHR ''='']
       = [of_nat (n div 16)]"
proof -
  have "n div 64 < 64" using assms by simp
  note d = dec6_enc6[OF this] dec6_enc6[of "n mod 64"]
  have r: "n div 64 * 64 + n mod 64 = n" by simp
  show ?thesis
    by (simp only: b64decode.simps d dec6_pad option.case prod.case Let_def r
        mod_less_divisor zero_less_numeral simp_thms)
qed

lemma bytes3:
  fixes a b c :: nat
  assumes "b < 256" "c < 256"
  shows "(a * 65536 + b * 256 + c) div 65536 = a"
    "(a * 65536 + b * 256 + c) div 256 mod 256 = b"
    "(a * 65536 + b * 256 + c) mod 256 = c"
proof -
  have e: "a * 65536 + b * 256 + c = (a * 256 + b) * 256 + c" by simp
  have m: "((a * 256 + b) * 256 + c) mod 256 = c"
    using mod_mult_self3[of "a * 256 + b" 256 c] assms by (simp only: mod_less)
  have d: "((a * 256 + b) * 256 + c) div 256 = a * 256 + b"
    using div_mult_self3[of 256 "a * 256 + b" c] assms by simp
  have m2: "(a * 256 + b) mod 256 = b"
    using mod_mult_self3[of a 256 b] assms by (simp only: mod_less)
  have d2: "(a * 256 + b) div 256 = a"
    using div_mult_self3[of 256 a b] assms by simp
  show "(a * 65536 + b * 256 + c) mod 256 = c" by (simp only: e m)
  show "(a * 65536 + b * 256 + c) div 256 mod 256 = b" by (simp only: e d m2)
  have "(a * 65536 + b * 256 + c) div 65536 = (a * 65536 + b * 256 + c) div 256 div 256"
    by (simp add: div_mult2_eq[symmetric])
  then show "(a * 65536 + b * 256 + c) div 65536 = a" by (simp only: e d d2)
qed

lemma bytes2:
  fixes a b :: nat
  assumes "b < 256"
  shows "(a * 1024 + b * 4) div 1024 = a" "(a * 1024 + b * 4) div 4 mod 256 = b"
proof -
  have e: "a * 1024 + b * 4 = (a * 256 + b) * 4" by simp
  have d: "(a * 1024 + b * 4) div 4 = a * 256 + b" unfolding e by simp
  show "(a * 1024 + b * 4) div 4 mod 256 = b" unfolding d using assms by simp
  have "(a * 1024 + b * 4) div 1024 = (a * 1024 + b * 4) div 4 div 256"
    by (simp add: div_mult2_eq[symmetric])
  then show "(a * 1024 + b * 4) div 1024 = a" unfolding d using assms by simp
qed

lemma byte_lt: "unat (a :: byte) < 256"
  using unsigned_less[of a] by simp

lemma b64_roundtrip: "b64decode (b64encode bs) = bs"
proof (induction bs rule: b64encode.induct)
  case 1
  then show ?case by simp
next
  case (2 a)
  have "unat a * 16 < 4096" using byte_lt[of a] by simp
  from dec_group1[OF this] show ?case
    unfolding b64encode.simps Let_def by simp
next
  case (3 a b)
  have "unat a * 1024 + unat b * 4 < 262144" using byte_lt[of a] byte_lt[of b] by simp
  from dec_group2[OF this] show ?case
    unfolding b64encode.simps Let_def bytes2[OF byte_lt] by simp
next
  case (4 a b c rest)
  have "unat a * 65536 + unat b * 256 + unat c < 16777216"
    using byte_lt[of a] byte_lt[of b] byte_lt[of c] by simp
  from dec_group3[OF this, of "b64encode rest"] show ?case
    unfolding b64encode.simps Let_def bytes3[OF byte_lt byte_lt] using 4 by simp
qed

subsection \<open>Chunking\<close>

lemma ceil_step:
  fixes n i c :: nat
  assumes "0 < c" "i < n"
  shows "(n - i + (c - 1)) div c = Suc ((n - (i + c) + (c - 1)) div c)"
proof (cases "c \<le> n - i")
  case True
  then have "n - i + (c - 1) = (n - (i + c) + (c - 1)) + c" by simp
  then show ?thesis using assms(1) by (simp only: div_add_self2)
next
  case False
  then have z: "n - (i + c) = 0" by simp
  have "c \<le> n - i + (c - 1)" "n - i + (c - 1) < 2 * c" using False assms by simp_all
  then have "(n - i + (c - 1)) div c = 1"
    by (metis One_nat_def div_nat_eqI mult.commute mult_2 mult_Suc_right nat_mult_1_right numeral_2_eq_2)
  then show ?thesis using z assms(1) by simp
qed

lemma slice_drop: "slice buf i (i + c) @ drop (i + c) buf = drop i buf"
proof -
  have "take c (drop i buf) @ drop c (drop i buf) = drop i buf" by (rule append_take_drop_id)
  then show ?thesis by (simp add: slice_def add.commute)
qed

lemma sendChunks_ok:
  "(\<forall>f. ok f) \<longrightarrow>
     snd (sendChunks ok sid buf i) = False
     \<and> list_all is_media (fst (sendChunks ok sid buf i))
     \<and> length (fst (sendChunks ok sid buf i)) = (length buf - i + (CHUNK_SIZE - 1)) div CHUNK_SIZE
     \<and> concat (map (\<lambda>f. b64decode (payload f)) (fst (sendChunks ok sid buf i))) = drop i buf"
proof (induction ok sid buf i rule: sendChunks.induct)
  case (1 ok sid buf i)
  show ?case
  proof (cases "i < length buf")
    case False
    then show ?thesis by (simp add: sendChunks.simps[of _ _ buf i] CHUNK_SIZE_def)
  next
    case True
    show ?thesis
    proof
      assume a: "\<forall>f. ok f"
      let ?f = "MediaFrame sid (b64encode (slice buf i (i + CHUNK_SIZE)))"
      let ?r = "sendChunks ok sid buf (i + CHUNK_SIZE)"
      have IH: "snd ?r = False" "list_all is_media (fst ?r)"
        "length (fst ?r) = (length buf - (i + CHUNK_SIZE) + (CHUNK_SIZE - 1)) div CHUNK_SIZE"
        "concat (map (\<lambda>f. b64decode (payload f)) (fst ?r)) = drop (i + CHUNK_SIZE) buf"
        using 1[OF True refl a[rule_format]] a by blast+
      have okf: "ok ?f" using a by blast
      have unf: "sendChunks ok sid buf i = (?f # fst ?r, snd ?r)"
        by (subst sendChunks.simps) (simp only: True okf if_True Let_def split_beta)
      have len: "(length buf - i + (CHUNK_SIZE - 1)) div CHUNK_SIZE
               = Suc ((length buf - (i + CHUNK_SIZE) + (CHUNK_SIZE - 1)) div CHUNK_SIZE)"
        by (rule ceil_step) (simp_all add: CHUNK_SIZE_def True)
      note cat = slice_drop[of buf i CHUNK_SIZE]
      show "snd (sendChunks ok sid buf i) = False
     \<and> list_all is_media (fst (sendChunks ok sid buf i))
     \<and> length (fst (sendChunks ok sid buf i)) = (length buf - i + (CHUNK_SIZE - 1)) div CHUNK_SIZE
     \<and> concat (map (\<lambda>f. b64decode (payload f)) (fst (sendChunks ok sid buf i))) = drop i buf"
        unfolding unf len using IH cat by (simp add: b64_roundtrip)
    qed
  qed
qed

subsection \<open>Audio output\<close>

text \<open>
  C2 (as amended). On an open connection with a non-empty stream identifier, when every
  frame write returns, sending a buffer of length \<open>L\<close> emits \<open>\<lceil>L / 4000\<rceil>\<close> media frames and
  then one mark frame; the mark is named by the caller's token when one is given and is not
  the empty string, and by a generated token when none is given; the decoded payloads,
  concatenated in order, are the buffer.
\<close>

theorem sendAudioToTwilio_frames:
  assumes sid: "truthy sid" and ok: "\<forall>f. ok f" and mk: "mark \<noteq> Some []"
  shows "\<exists>fs. sendAudioToTwilio ok ConnOpen (Some sid) clk audioBuffer mark
              = (fs @ [MarkFrame sid (case mark of Some m \<Rightarrow> m | None \<Rightarrow> audio_token clk)], False)
            \<and> list_all is_media fs
            \<and> length fs = (length audioBuffer + (CHUNK_SIZE - 1)) div CHUNK_SIZE
            \<and> concat (map (\<lambda>f. b64decode (payload f)) fs) = audioBuffer"
proof -
  let ?r = "sendChunks ok sid audioBuffer 0"
  have c: "snd ?r = False" "list_all is_media (fst ?r)"
    "length (fst ?r) = (length audioBuffer - 0 + (CHUNK_SIZE - 1)) div CHUNK_SIZE"
    "concat (map (\<lambda>f. b64decode (payload f)) (fst ?r)) = drop 0 audioBuffer"
    using sendChunks_ok[of ok sid audioBuffer 0] ok by blast+
  have name: "(if truthy_opt mark then the mark else audio_token clk)
            = (case mark of Some m \<Rightarrow> m | None \<Rightarrow> audio_token clk)"
    using mk by (cases mark) (simp_all add: truthy_def)
  have "sendAudioToTwilio ok ConnOpen (Some sid) clk audioBuffer mark
      = (fst ?r @ [MarkFrame sid (case mark of Some m \<Rightarrow> m | None \<Rightarrow> audio_token clk)], False)"
    using sid ok c(1) by (simp add: sendAudioToTwilio_def name split_beta Let_def)
  then show ?thesis using c by auto
qed

lemma decimal_1700: "decimal 1700 = ''1700''"
  by (simp add: decimal.simps[of 1700] decimal.simps[of 170] decimal.simps[of 17]
      decimal.simps[of 1] decimal.simps[of "Suc 0"] digit_def char_of_def bit_0)

lemma sendChunks_small:
  "length buf \<le> CHUNK_SIZE \<Longrightarrow> buf \<noteq> [] \<Longrightarrow> ok (MediaFrame sid (b64encode buf))
     \<Longrightarrow> sendChunks ok sid buf 0 = ([MediaFrame sid (b64encode buf)], False)"
  by (simp add: sendChunks.simps[of _ _ buf 0] sendChunks.simps[of _ _ buf CHUNK_SIZE] slice_def)

theorem sendAudioToTwilio_frames_witness:
  "sendAudioToTwilio writes_succeed ConnOpen (Some ''MZ1'') 1700 [1, 2, 3, 4] (Some ''ack1'')
     = ([MediaFrame ''MZ1'' ''AQIDBA=='', MarkFrame ''MZ1'' ''ack1''], False)"
proof -
  have "\<forall>f. writes_succeed f" by (simp add: writes_succeed_def)
  from sendAudioToTwilio_frames[OF _ this, of "''MZ1''" "Some ''ack1''" 1700 "[1, 2, 3, 4]"]
  obtain fs where fs: "sendAudioToTwilio writes_succeed ConnOpen (Some ''MZ1'') 1700 [1, 2, 3, 4] (Some ''ack1'')
       = (fs @ [MarkFrame ''MZ1'' ''ack1''], False)"
    by (auto simp: truthy_def)
  have "sendAudioToTwilio writes_succeed ConnOpen (Some ''MZ1'') 1700 [1, 2, 3, 4] (Some ''ack1'')
     = ([MediaFrame ''MZ1'' ''AQIDBA=='', MarkFrame ''MZ1'' ''ack1''], False)"
    by (simp add: sendAudioToTwilio_def truthy_def sendChunks_small CHUNK_SIZE_def writes_succeed_def
        enc6_def char_of_def bit_0)
  then show ?thesis using fs by simp
qed

text \<open>
  C2 as stated fails: an empty token counts as no token, a throwing write of the mark
  leaves the media frames without a mark, and an empty stream identifier sends nothing.
\<close>

theorem sendAudioToTwilio_counterexample:
  "sendAudioToTwilio writes_succeed ConnOpen (Some ''MZ1'') 1700 [1, 2, 3, 4] (Some '''')
     = ([MediaFrame ''MZ1'' ''AQIDBA=='', MarkFrame ''MZ1'' ''audio_1700''], False)
   \<and> sendAudioToTwilio mark_write_fails ConnOpen (Some ''MZ1'') 1700 [1, 2, 3, 4] (Some ''ack1'')
     = ([MediaFrame ''MZ1'' ''AQIDBA==''], True)
   \<and> sendAudioToTwilio writes_succeed ConnOpen (Some '''') 1700 [1, 2, 3, 4] (Some ''ack1'')
     = ([], False)"
  by (simp add: sendAudioToTwilio_def truthy_def sendChunks_small CHUNK_SIZE_def writes_succeed_def
      mark_write_fails_def enc6_def audio_token_def decimal_1700 char_of_def bit_0)

subsection \<open>The AI-response collaborator\<close>

text \<open>
  C10. \<open>generateResponseWithTools\<close> never raises: it always returns a response, and when
  the request throws or yields no content it returns the fixed fallback response, which
  asks the user to repeat and carries no tool calls, leaving the history as it was.
\<close>

theorem generateResponseWithTools_never_raises:
  "(\<exists>r. fst (generateResponseWithTools parse h userMessage callId res) = Inr r)
   \<and> (api_failed res \<longrightarrow>
        generateResponseWithTools parse h userMessage callId res = (Inr fallbackResponse, h))
   \<and> r_toolCalls fallbackResponse = None
   \<and> r_text fallbackResponse
       = ''I'' @ [CHR 0x27] @ ''m sorry, I encountered an error. Could you please repeat that?''"
  by (cases res)
     (auto simp: generateResponseWithTools_def generateResponseWithTools_try_def fallbackResponse_def
           Let_def split: option.splits sum.splits)

theorem generateResponseWithTools_never_raises_witness:
  "api_failed (ApiThrows ''503'')
   \<and> generateResponseWithTools no_json Map.empty ''hello'' ''CA1'' (ApiThrows ''503'')
       = (Inr fallbackResponse, Map.empty)
   \<and> api_failed (ApiContent None)
   \<and> generateResponseWithTools no_json Map.empty ''hello'' ''CA1'' (ApiContent None)
       = (Inr fallbackResponse, Map.empty)"
  using generateResponseWithTools_never_raises[of no_json Map.empty "''hello''" "''CA1''" "ApiThrows ''503''"]
    generateResponseWithTools_never_raises[of no_json Map.empty "''hello''" "''CA1''" "ApiContent None"]
  by simp

lemma askWithTools_length:
  "\<forall>q \<in> set qs. truthy (snd q) \<Longrightarrow>
   length (getConversationHistory (askWithTools parse callId qs h) callId)
     = length (getConversationHistory h callId) + 2 * length qs"
proof (induction qs arbitrary: h)
  case Nil
  then show ?case by simp
next
  case (Cons q qs)
  obtain u r where q: "q = (u, r)" by (cases q)
  have r: "truthy r" using Cons.prems q by simp
  let ?h = "snd (generateResponseWithTools parse h u callId (ApiContent (Some r)))"
  have "length (getConversationHistory ?h callId) = length (getConversationHistory h callId) + 2"
    using r by (simp add: generateResponseWithTools_def generateResponseWithTools_try_def
        getConversationHistory_def Let_def split: option.splits)
  then show ?case using Cons.IH[of ?h] Cons.prems by (simp add: q)
qed

text \<open>
  C8 at the failing input: eleven successful \<open>generateResponseWithTools\<close> calls for one
  call leave 22 messages in its history, above the window of 20 that \<open>generateResponse\<close>
  keeps.
\<close>

theorem history_unbounded_with_tools:
  "length (getConversationHistory
             (askWithTools no_json ''CA1'' (replicate 11 (''hi'', ''ok'')) Map.empty) ''CA1'') = 22"
  by (subst askWithTools_length) (simp_all add: truthy_def getConversationHistory_def)

lemma gated_by_mono: "gated_by cs seen xs \<Longrightarrow> gated_by cs True xs"
  by (induction cs seen xs rule: gated_by.induct) auto

lemma gated_by_append:
  "gated_by cs seen (xs @ ys)
     = (gated_by cs seen xs \<and> gated_by cs (seen \<or> list_ex (\<lambda>a. case a of Resolved c \<Rightarrow> c \<in> set cs | _ \<Rightarrow> False) xs) ys)"
  by (induction cs seen xs rule: gated_by.induct) (auto dest: gated_by_mono)

lemma gated_all_append:
  "gated_by [ByEcho, ByTimeout, BySendError] seen (xs @ ys)
     = (gated_by [ByEcho, ByTimeout, BySendError] seen xs
        \<and> gated_by [ByEcho, ByTimeout, BySendError] (seen \<or> list_ex is_Resolved xs) ys)"
proof -
  have "(case a of Resolved c \<Rightarrow> c \<in> set [ByEcho, ByTimeout, BySendError] | _ \<Rightarrow> False)
        = is_Resolved a" for a
    by (cases a; simp) (metis cause.exhaust)
  then show ?thesis by (simp add: gated_by_append)
qed

lemma detached_weaken: "detached False xs \<Longrightarrow> detached p xs"
  by (cases xs; cases "hd xs"; simp)

lemma detached_append: "detached p xs \<Longrightarrow> detached False ys \<Longrightarrow> detached p (xs @ ys)"
proof (induction p xs rule: detached.induct)
  case (1 prev)
  then show ?case by (simp add: detached_weaken)
qed auto

lemma count_Proceeded_none: "\<not> list_ex after_settling xs \<Longrightarrow> count_list xs Proceeded = 0"
  by (induction xs) auto

lemma task_wf_new:
  "task_wf \<lparr>t_callSid = c, t_userMessage = u, t_phase = AwaitAIResponse, t_ack = None,
            t_log = [AIRequested u]\<rparr>"
  by (simp add: task_wf_def)

lemma task_wf_fallback: "task_wf t \<Longrightarrow> \<not> outstanding t \<Longrightarrow> task_wf (fallback t)"
  by (auto simp: task_wf_def fallback_def outstanding_def gated_all_append detached_append
      split: option.splits if_splits)

lemma task_wf_onAIResponse:
  "task_wf t \<Longrightarrow> t_phase t = AwaitAIResponse \<Longrightarrow> task_wf (onAIResponse resp t)"
  by (auto simp: task_wf_def onAIResponse_def gated_all_append detached_append
      split: option.splits if_splits)

lemmas wf_simps = task_wf_def gated_all_append detached_append count_Proceeded_none
  settle_def afterAck_def hasToolCalls_def Let_def

lemma task_wf_markHandler: "task_wf t \<Longrightarrow> task_wf (markHandler n t)"
  by (auto simp: markHandler_def wf_simps
      split: option.splits if_splits phase.splits list.splits)

lemma task_wf_ackTimeout: "task_wf t \<Longrightarrow> task_wf (ackTimeout clk t)"
  by (auto simp: ackTimeout_def wf_simps
      split: option.splits if_splits phase.splits list.splits)

lemma task_wf_onSpeech: "task_wf t \<Longrightarrow> task_wf (fst (onSpeech ok cs sid clk speech t))"
  by (auto simp: onSpeech_def wf_simps fallback_def split_beta
      split: option.splits if_splits phase.splits list.splits)

lemma task_wf_onToolResult: "task_wf t \<Longrightarrow> task_wf (onToolResult P cid backend t)"
  by (auto simp: onToolResult_def wf_simps
      split: option.splits if_splits phase.splits list.splits)

lemma task_wf_onFollowUp: "task_wf t \<Longrightarrow> task_wf (onFollowUp r t)"
  by (auto simp: onFollowUp_def wf_simps fallback_def
      split: option.splits if_splits phase.splits list.splits sum.splits)

lemma emit_fields [simp]:
  "tasks (emit es s) = tasks s" "callSession (emit es s) = callSession s"
  "effects (emit es s) = effects s @ es" "now (emit es s) = now s"
  "quietTimers (emit es s) = quietTimers s" "conversationBuffer (emit es s) = conversationBuffer s"
  "lastSpeechTime (emit es s) = lastSpeechTime s" "streamSid (emit es s) = streamSid s"
  "transcriptHandlers (emit es s) = transcriptHandlers s"
  by (simp_all add: emit_def)

lemma cleanup_fields [simp]:
  "tasks (cleanup s) = tasks s" "callSession (cleanup s) = callSession s"
  "now (cleanup s) = now s" "quietTimers (cleanup s) = quietTimers s"
  "conversationBuffer (cleanup s) = conversationBuffer s"
  "lastSpeechTime (cleanup s) = lastSpeechTime s" "streamSid (cleanup s) = streamSid s"
  "transcriptHandlers (cleanup s) = transcriptHandlers s"
  by (simp_all add: cleanup_def Let_def emit_def split: option.splits)

lemma resume_fields [simp]:
  "tasks (resume tid t' s) = (tasks s)[tid := t']" "callSession (resume tid t' s) = callSession s"
  "effects (resume tid t' s) = effects s" "now (resume tid t' s) = now s"
  "quietTimers (resume tid t' s) = quietTimers s"
  "lastSpeechTime (resume tid t' s) = lastSpeechTime s" "streamSid (resume tid t' s) = streamSid s"
  "transcriptHandlers (resume tid t' s) = transcriptHandlers s"
  by (simp_all add: resume_def Let_def)

lemma list_all_update: "list_all P xs \<Longrightarrow> P x \<Longrightarrow> list_all P (xs[i := x])"
  by (induction xs arbitrary: i) (auto split: nat.splits)

lemma session_wf_resume:
  "session_wf s \<Longrightarrow> task_wf t' \<Longrightarrow> session_wf (resume tid t' s)"
  by (auto simp: session_wf_def list_all_update split: option.splits)

lemma session_wf_emit [simp]: "session_wf (emit es s) = session_wf s"
  by (simp add: session_wf_def)

lemma session_wf_cleanup [simp]: "session_wf (cleanup s) = session_wf s"
  by (simp add: session_wf_def)

lemma task_wf_nth: "session_wf s \<Longrightarrow> tid < length (tasks s) \<Longrightarrow> task_wf (tasks s ! tid)"
  by (simp add: session_wf_def list_all_length)

lemma session_wf_accept: "session_wf (accept t conns calls hist)"
  by (simp add: session_wf_def accept_def)

lemma session_wf_handleCallStart: "session_wf s \<Longrightarrow> session_wf (handleCallStart E sid cid s)"
  by (simp add: handleCallStart_def Let_def session_wf_def)

lemma session_wf_handleMediaData: "session_wf s \<Longrightarrow> session_wf (handleMediaData pl s)"
  by (simp add: handleMediaData_def)

lemma session_wf_handleCallStop: "session_wf s \<Longrightarrow> session_wf (handleCallStop cid s)"
  by (cases "callSession s") (simp_all add: handleCallStop_def session_wf_def)

lemma tasks_deliverMark [simp]: "tasks (deliverMark n s) = map (markHandler n) (tasks s)"
  by (simp add: deliverMark_def Let_def)

lemma callSession_deliverMark [simp]: "callSession (deliverMark n s) = callSession s"
  by (simp add: deliverMark_def Let_def)

lemma session_wf_deliverMark: "session_wf s \<Longrightarrow> session_wf (deliverMark n s)"
  by (auto simp: session_wf_def list_all_iff task_wf_markHandler)

lemma session_wf_onMessage: "session_wf s \<Longrightarrow> session_wf (onMessage E m s)"
  by (cases m)
     (simp_all add: onMessage_def session_wf_handleCallStart session_wf_handleMediaData
        session_wf_handleCallStop session_wf_deliverMark)

lemma session_wf_idleTimeout: "session_wf s \<Longrightarrow> session_wf (idleTimeout s)"
  by (auto simp: idleTimeout_def Let_def session_wf_def split: option.splits)

lemma session_wf_greetingDue: "session_wf s \<Longrightarrow> session_wf (greetingDue s)"
  by (auto simp: greetingDue_def session_wf_def split: list.splits)

lemma session_wf_greetingSpeech: "session_wf s \<Longrightarrow> session_wf (greetingSpeech E sp s)"
  by (auto simp: greetingSpeech_def Let_def session_wf_def split: option.splits)

lemma session_wf_processConversation:
  "session_wf s \<Longrightarrow> session_wf (processConversation u s)"
  by (auto simp: processConversation_def Let_def session_wf_def task_wf_new split: option.splits)

lemma session_wf_quietTimer: "session_wf s \<Longrightarrow> session_wf (quietTimer s)"
proof -
  assume wf: "session_wf s"
  have "session_wf (s\<lparr>quietTimers := r\<rparr>)" for r using wf by (simp add: session_wf_def)
  then show ?thesis
    by (auto simp: quietTimer_def Let_def wf session_wf_processConversation split: list.splits)
qed

lemma session_wf_onTranscript: "session_wf s \<Longrightarrow> session_wf (onTranscript r s)"
  by (auto simp: onTranscript_def Let_def session_wf_def split: option.splits)

lemma session_wf_onCompletion: "session_wf s \<Longrightarrow> session_wf (onCompletion E tid res s)"
proof (cases "tid < length (tasks s)")
  case False
  assume "session_wf s"
  with False show ?thesis by (simp add: onCompletion_def)
next
  case True
  assume wf: "session_wf s"
  note twf = task_wf_nth[OF wf True]
  have h: "session_wf (s\<lparr>conversationHistory := h\<rparr>)" for h
    using wf by (simp add: session_wf_def)
  have c: "session_wf (s\<lparr>conversationHistory := h, callSession := Some c\<rparr>)" for h c
    using wf by (simp add: session_wf_def)
  show ?thesis
  proof (cases "t_phase (tasks s ! tid)")
    case AwaitAIResponse
    have no: "\<not> outstanding (tasks s ! tid)"
      using twf AwaitAIResponse
      by (auto simp: task_wf_def outstanding_def split: option.splits if_splits)
    show ?thesis using True AwaitAIResponse
      by (auto simp: onCompletion_def Let_def split_beta h c
          intro!: session_wf_resume task_wf_onAIResponse task_wf_fallback twf no
          split: sum.splits option.splits)
  next
    case (AwaitFollowUp p cid)
    then show ?thesis using True
      by (auto simp: onCompletion_def Let_def split_beta h
          intro!: session_wf_resume task_wf_onFollowUp twf)
  qed (use True wf in \<open>simp_all add: onCompletion_def Let_def\<close>)
qed

lemma session_wf_onSpeechDone: "session_wf s \<Longrightarrow> session_wf (onSpeechDone E tid sp s)"
  by (auto simp: onSpeechDone_def split_beta
      intro!: session_wf_resume task_wf_onSpeech task_wf_nth)

lemma session_wf_onAckDeadline: "session_wf s \<Longrightarrow> session_wf (onAckDeadline tid s)"
  by (auto simp: onAckDeadline_def intro!: session_wf_resume task_wf_ackTimeout task_wf_nth)

lemma session_wf_onToolReturn: "session_wf s \<Longrightarrow> session_wf (onToolReturn E tid b s)"
proof (cases "tid < length (tasks s)")
  case False
  assume "session_wf s"
  with False show ?thesis by (simp add: onToolReturn_def)
next
  case True
  assume wf: "session_wf s"
  then obtain cs where cs: "callSession s = Some cs"
    using True by (auto simp: session_wf_def split: option.splits)
  show ?thesis using True cs wf
    by (auto simp: onToolReturn_def intro!: session_wf_resume task_wf_onToolResult task_wf_nth)
qed

lemma session_wf_step: "session_wf s \<Longrightarrow> session_wf (step E ev s)"
proof -
  assume wf: "session_wf s"
  have t: "session_wf (s\<lparr>now := n\<rparr>)" "session_wf (s\<lparr>connState := c\<rparr>)" for n c
    using wf by (simp_all add: session_wf_def)
  show ?thesis
    by (cases ev)
       (simp_all add: step_def wf t session_wf_onMessage session_wf_idleTimeout
          session_wf_greetingDue session_wf_greetingSpeech session_wf_quietTimer
          session_wf_onTranscript session_wf_onCompletion session_wf_onSpeechDone
          session_wf_onAckDeadline session_wf_onToolReturn)
qed

lemma session_wf_run: "session_wf s \<Longrightarrow> session_wf (run E evs s)"
  by (induction evs arbitrary: s) (simp_all add: session_wf_step)

subsection \<open>Evaluating a run\<close>

lemmas eval_defs =
  fresh_def accept_def said_bye_def spoke_goodbye_def env_ok_def env_mark_fails_def final_def
  step_def onMessage_def handleCallStart_def handleMediaData_def handleCallStop_def cleanup_def
  emit_def deliverMark_def onTranscript_def quietTimer_def processConversation_def
  onCompletion_def onSpeechDone_def onAckDeadline_def onToolReturn_def resume_def
  generateResponseWithTools_def generateResponseWithTools_try_def generateResponse_def
  parse_demo_def prompt_demo_def goodbye_def hangUp_def searchMenu_def
  onAIResponse_def onSpeech_def onToolResult_def onFollowUp_def fallback_def
  markHandler_def ackTimeout_def settle_def afterAck_def hasToolCalls_def
  executeToolCall_def arg_def
  sendAudioToTwilio_def sendChunks_small CHUNK_SIZE_def writes_succeed_def mark_write_fails_def
  truthy_def trim_def isSpace_def audio_token_def Let_def

lemma decimal_0: "decimal 0 = ''0''"
  by (simp add: decimal.simps[of 0] digit_def char_of_def bit_0)

lemma decimal_1000: "decimal 1000 = ''1000''"
  by (simp add: decimal.simps[of 1000] decimal.simps[of 100] decimal.simps[of 10]
      decimal.simps[of 1] decimal.simps[of "Suc 0"] digit_def char_of_def bit_0)

lemma b64_1234: "b64encode [1, 2, 3, 4] = ''AQIDBA==''"
  by (simp add: enc6_def char_of_def bit_0)

lemma tasks_said_bye:
  "tasks (run env_ok said_bye fresh) =
     [\<lparr>t_callSid = ''CA1'', t_userMessage = ''bye'', t_phase = AwaitAIResponse, t_ack = None,
       t_log = [AIRequested ''bye'']\<rparr>]"
  by (simp add: eval_defs decimal_0)

lemma tasks_spoke_goodbye:
  "tasks (run env_ok spoke_goodbye fresh) =
     [\<lparr>t_callSid = ''CA1'', t_userMessage = ''bye'', t_phase = AwaitPlayback goodbye,
       t_ack = Some \<lparr>markName = ''audio_1000'', listening = True, deadline = Some 11000,
                     resolved = False\<rparr>,
       t_log = [AIRequested ''bye'', SpeechRequested ''Goodbye'', ListenerAdded ''audio_1000'',
                DeadlineSet 11000]\<rparr>]"
  by (simp add: eval_defs decimal_0 decimal_1000 b64_1234)

subsection \<open>Cleanup and the life of a call session\<close>

text \<open>
  C7. \<open>cleanup\<close> is idempotent: run twice, it leaves the state (everything but the record of
  effects) that one run leaves. One run does, in this order: clear the idle timer when its
  handle is set, close the speech backend connection when there is one, delete the connection
  from the registry, delete the call session from the session map when there is one.
\<close>

theorem cleanup_idempotent_ordered:
  "observable (cleanup (cleanup s)) = observable (cleanup s)
   \<and> effects (cleanup s) =
       effects s
       @ (if connectionTimeout s then [IdleTimerCleared] else [])
       @ (if deepgramConnection s then [SpeechBackendClosed] else [])
       @ [ConnectionDeleted (connectionId s)]
       @ (case callSession s of None \<Rightarrow> [] | Some cs \<Rightarrow> [CallDeleted (callSid cs)])
   \<and> (connectionTimeout s \<longrightarrow> idleTimer (cleanup s) = None)
   \<and> \<not> connectionTimeout (cleanup s)
   \<and> \<not> deepgramConnection (cleanup s)
   \<and> activeConnections (cleanup s) = (activeConnections s)(connectionId s := None)
   \<and> activeCalls (cleanup s) =
       (case callSession s of None \<Rightarrow> activeCalls s
        | Some cs \<Rightarrow> (activeCalls s)(callSid cs := None))"
  by (cases "callSession s"; cases "connectionTimeout s"; cases "deepgramConnection s")
     (simp_all add: cleanup_def observable_def emit_def Let_def)

theorem cleanup_idempotent_ordered_witness:
  "connectionTimeout fresh
   \<and> idleTimer fresh = Some 120000
   \<and> idleTimer (cleanup fresh) = None
   \<and> effects (cleanup fresh) = [IdleTimerCleared, ConnectionDeleted ''0'']
   \<and> effects (cleanup (run env_ok said_bye fresh))
       = [IdleTimerCleared, Flushed ''bye'', SpeechBackendClosed, ConnectionDeleted ''0'',
          CallDeleted ''CA1'']
   \<and> observable (cleanup (cleanup fresh)) = observable (cleanup fresh)"
proof -
  have e: "effects (run env_ok said_bye fresh) = [IdleTimerCleared, Flushed ''bye'']"
    "\<not> connectionTimeout (run env_ok said_bye fresh)"
    "deepgramConnection (run env_ok said_bye fresh)"
    "connectionId (run env_ok said_bye fresh) = ''0''"
    "map_option callSid (callSession (run env_ok said_bye fresh)) = Some ''CA1''"
    by (simp_all add: eval_defs decimal_0)
  have f: "connectionTimeout fresh" "idleTimer fresh = Some 120000" "effects fresh = []"
    "\<not> deepgramConnection fresh" "connectionId fresh = ''0''" "callSession fresh = None"
    by (simp_all add: fresh_def accept_def decimal_0)
  show ?thesis
    using cleanup_idempotent_ordered[of fresh]
      cleanup_idempotent_ordered[of "run env_ok said_bye fresh"] e f
    by (auto split: option.splits)
qed

text \<open>
  C9 (as amended). Accepting a connection creates no call session. The start event creates it
  with status \<open>CONNECTED\<close> and registers it; the stop event sets the status of an existing
  session to \<open>ENDED\<close> and records the end time; a close of the connection deletes the session
  from the session map.
\<close>

theorem session_lifecycle:
  "callSession (accept t conns calls hist) = None
   \<and> activeCalls (accept t conns calls hist) = calls
   \<and> map_option status (callSession (step E (Receive (EvStart sid cid)) s)) = Some CONNECTED
   \<and> map_option callSid (callSession (step E (Receive (EvStart sid cid)) s)) = Some cid
   \<and> activeCalls (step E (Receive (EvStart sid cid)) s) cid = Some ()
   \<and> (callSession s \<noteq> None \<longrightarrow>
        map_option status (callSession (step E (Receive (EvStop cid')) s)) = Some ENDED
        \<and> map_option endTime (callSession (step E (Receive (EvStop cid')) s)) = Some (Some (now s)))
   \<and> (\<forall>cs. callSession s = Some cs \<longrightarrow> activeCalls (step E ConnClose s) (callSid cs) = None)"
  by (cases "callSession s")
     (simp_all add: accept_def step_def onMessage_def handleCallStart_def handleCallStop_def
        Let_def emit_def cleanup_def)

theorem session_lifecycle_witness:
  "callSession (run env_ok [Receive (EvStart ''MZ1'' ''CA1'')] fresh) \<noteq> None
   \<and> map_option status (callSession (run env_ok [Receive (EvStart ''MZ1'' ''CA1''),
                                                  Receive (EvStop ''CA1'')] fresh)) = Some ENDED
   \<and> activeCalls (run env_ok [Receive (EvStart ''MZ1'' ''CA1''), ConnClose] fresh) ''CA1'' = None"
proof -
  let ?s = "step env_ok (Receive (EvStart ''MZ1'' ''CA1'')) fresh"
  have "map_option callSid (callSession ?s) = Some ''CA1''"
    using session_lifecycle[of 0 Map.empty Map.empty Map.empty env_ok "''MZ1''" "''CA1''" fresh "''CA1''"]
    by blast
  then obtain cs where cs: "callSession ?s = Some cs" "callSid cs = ''CA1''"
    by (cases "callSession ?s") auto
  show ?thesis
    using session_lifecycle[of 0 Map.empty Map.empty Map.empty env_ok "''MZ1''" "''CA1''" ?s "''CA1''"] cs
    by simp
qed

text \<open>
  C9 as stated fails: no session (and no status \<open>CONNECTING\<close>) exists after the accept, and
  a close without a stop event leaves the status \<open>CONNECTED\<close>.
\<close>

theorem session_lifecycle_counterexample:
  "callSession fresh = None
   \<and> activeCalls fresh = Map.empty
   \<and> map_option status (callSession (run env_ok [Receive (EvStart ''MZ1'' ''CA1''), ConnClose] fresh))
       = Some CONNECTED"
  by (simp add: eval_defs)

subsection \<open>A finished orchestration makes no further request\<close>

lemma finished_markHandler:
  "task_wf t \<Longrightarrow> t_phase t = Finished \<Longrightarrow> markHandler n t = t"
  by (auto simp: task_wf_def markHandler_def split: option.splits if_splits)

lemma finished_ackTimeout:
  "task_wf t \<Longrightarrow> t_phase t = Finished \<Longrightarrow>
   t_phase (ackTimeout clk t) = Finished
   \<and> filter is_request (t_log (ackTimeout clk t)) = filter is_request (t_log t)"
  by (auto simp: task_wf_def ackTimeout_def settle_def Let_def split: option.splits if_splits)

lemma finished_onSpeech: "t_phase t = Finished \<Longrightarrow> onSpeech ok cst sid clk sp t = (t, [])"
  by (simp add: onSpeech_def)

lemma finished_onToolResult: "t_phase t = Finished \<Longrightarrow> onToolResult P cid b t = t"
  by (simp add: onToolResult_def)

lemma tasks_nth_resume:
  "tid < length (tasks s) \<Longrightarrow>
   tasks (resume tid' t' s) ! tid = (if tid = tid' then t' else tasks s ! tid)"
  by simp

lemma tasks_handleCallStart [simp]: "tasks (handleCallStart E sid cid s) = tasks s"
  by (simp add: handleCallStart_def Let_def)

lemma tasks_handleMediaData [simp]: "tasks (handleMediaData pl s) = tasks s"
  by (simp add: handleMediaData_def)

lemma tasks_handleCallStop [simp]: "tasks (handleCallStop cid s) = tasks s"
  by (cases "callSession s") (simp_all add: handleCallStop_def)

lemma tasks_idleTimeout [simp]: "tasks (idleTimeout s) = tasks s"
  by (simp add: idleTimeout_def Let_def split: option.splits)

lemma tasks_greetingDue [simp]: "tasks (greetingDue s) = tasks s"
  by (simp add: greetingDue_def split: list.splits)

lemma tasks_greetingSpeech [simp]: "tasks (greetingSpeech E sp s) = tasks s"
  by (simp add: greetingSpeech_def Let_def split: option.splits)

lemma tasks_onTranscript [simp]: "tasks (onTranscript r s) = tasks s"
  by (simp add: onTranscript_def Let_def split: option.splits)

lemma tasks_processConversation:
  "\<exists>new. tasks (processConversation u s) = tasks s @ new"
  by (simp add: processConversation_def Let_def split: option.splits)

lemma tasks_quietTimer: "\<exists>new. tasks (quietTimer s) = tasks s @ new"
proof -
  have "\<exists>new. tasks (processConversation u (s\<lparr>quietTimers := r\<rparr>)) = tasks s @ new" for u r
    using tasks_processConversation[of u "s\<lparr>quietTimers := r\<rparr>"] by simp
  then show ?thesis by (auto simp: quietTimer_def Let_def split: list.splits)
qed

text \<open>What a step does to the task \<open>tid\<close>: nothing, or one of the transitions of the task.\<close>

lemma step_task:
  assumes "tid < length (tasks s)"
  shows "tid < length (tasks (step E ev s))
     \<and> (tasks (step E ev s) ! tid = tasks s ! tid
        \<or> (\<exists>n. tasks (step E ev s) ! tid = markHandler n (tasks s ! tid))
        \<or> tasks (step E ev s) ! tid = ackTimeout (now s) (tasks s ! tid)
        \<or> (\<exists>sp. tasks (step E ev s) ! tid
              = fst (onSpeech (sendUTF_ok E) (connState s) (streamSid s) (now s) sp (tasks s ! tid)))
        \<or> (\<exists>cid b. callSession s \<noteq> None
              \<and> tasks (step E ev s) ! tid = onToolResult (followUpPrompt E) cid b (tasks s ! tid))
        \<or> (\<exists>resp. t_phase (tasks s ! tid) = AwaitAIResponse
              \<and> tasks (step E ev s) ! tid = onAIResponse resp (tasks s ! tid))
        \<or> (\<exists>r. tasks (step E ev s) ! tid = onFollowUp r (tasks s ! tid))
        \<or> (t_phase (tasks s ! tid) \<noteq> Finished
              \<and> tasks (step E ev s) ! tid = fallback (tasks s ! tid)))"
proof (cases ev)
  case (Receive m)
  then show ?thesis using assms by (cases m) (auto simp: step_def onMessage_def)
next
  case QuietTimer
  obtain new where "tasks (quietTimer s) = tasks s @ new" using tasks_quietTimer by blast
  then show ?thesis using assms QuietTimer by (simp add: step_def nth_append)
next
  case (Completion tid' res)
  show ?thesis
  proof (cases "tid' = tid")
    case False
    then show ?thesis using assms Completion
      by (auto simp: step_def onCompletion_def Let_def split_beta
          split: phase.splits sum.splits option.splits)
  next
    case True
    show ?thesis
    proof (cases "t_phase (tasks s ! tid)")
      case AwaitAIResponse
      then show ?thesis using assms Completion True
        by (auto simp: step_def onCompletion_def Let_def split_beta
            split: sum.splits option.splits)
    next
      case (AwaitFollowUp p cid)
      then show ?thesis using assms Completion True
        by (auto simp: step_def onCompletion_def Let_def split_beta)
    qed (use assms Completion True in \<open>simp_all add: step_def onCompletion_def Let_def\<close>)
  qed
next
  case (Speech tid' sp)
  then show ?thesis using assms
    by (cases "tid' = tid") (auto simp: step_def onSpeechDone_def split_beta)
next
  case (AckDeadline tid')
  then show ?thesis using assms
    by (cases "tid' = tid") (auto simp: step_def onAckDeadline_def)
next
  case (ToolReturn tid' b)
  then show ?thesis using assms
    by (cases "tid' = tid"; cases "callSession s")
       (auto simp: step_def onToolReturn_def split: phase.splits)
qed (use assms in \<open>simp_all add: step_def\<close>)

lemma finished_step:
  assumes wf: "session_wf s" and tid: "tid < length (tasks s)"
    and fin: "t_phase (tasks s ! tid) = Finished"
  shows "tid < length (tasks (step E ev s))
     \<and> t_phase (tasks (step E ev s) ! tid) = Finished
     \<and> filter is_request (t_log (tasks (step E ev s) ! tid))
         = filter is_request (t_log (tasks s ! tid))"
proof -
  note twf = task_wf_nth[OF wf tid]
  from step_task[OF tid, of E ev] show ?thesis
    using finished_markHandler[OF twf fin] finished_ackTimeout[OF twf fin]
      finished_onSpeech[OF fin] finished_onToolResult[OF fin] fin
    by (auto simp: onFollowUp_def)
qed

lemma finished_run:
  "session_wf s \<Longrightarrow> tid < length (tasks s) \<Longrightarrow> t_phase (tasks s ! tid) = Finished \<Longrightarrow>
   tid < length (tasks (run E evs s))
   \<and> t_phase (tasks (run E evs s) ! tid) = Finished
   \<and> filter is_request (t_log (tasks (run E evs s) ! tid))
       = filter is_request (t_log (tasks s ! tid))"
proof (induction evs arbitrary: s)
  case Nil
  then show ?case by simp
next
  case (Cons ev evs)
  from finished_step[OF Cons.prems, of E ev] session_wf_step[OF Cons.prems(1), of E ev]
  show ?case using Cons.IH[of "step E ev s"] by simp
qed

text \<open>
  C6. In a state reached from an accepted connection, when the tool call an orchestration
  waits for is \<open>hang_up_call\<close> and its result reports success, the orchestration is finished
  at the return and stays so: whatever happens afterwards, its log gains no tool call (the
  remaining calls of the list are not executed) and no follow-up request.
\<close>

theorem hang_up_stops_orchestration:
  assumes reach: "s = run E pre (accept t0 conns calls hist)"
    and tid: "tid < length (tasks s)"
    and phase: "t_phase (tasks s ! tid) = AwaitTool tc rest results"
    and hang: "tc_name tc = ''hang_up_call''"
    and ok: "tr_success (executeToolCall backend tc)"
  shows "t_phase (tasks (run E (ToolReturn tid backend # evs) s) ! tid) = Finished
     \<and> filter is_request (t_log (tasks (run E (ToolReturn tid backend # evs) s) ! tid))
         = filter is_request (t_log (tasks s ! tid))"
proof -
  have wf: "session_wf s" unfolding reach by (rule session_wf_run[OF session_wf_accept])
  then obtain cs where cs: "callSession s = Some cs"
    using tid by (auto simp: session_wf_def)
  let ?s1 = "step E (ToolReturn tid backend) s"
  have t1: "tasks ?s1 ! tid = (tasks s ! tid)\<lparr>t_phase := Finished\<rparr>"
    using tid cs phase hang ok by (simp add: step_def onToolReturn_def onToolResult_def Let_def)
  have l1: "tid < length (tasks ?s1)" using tid cs by (simp add: step_def onToolReturn_def)
  from finished_run[OF session_wf_step[OF wf] l1, of E evs] t1
  show ?thesis by simp
qed

lemma tasks_heard_echo:
  "tasks (run env_ok (spoke_goodbye @ [Receive (EvMark ''audio_1000'')]) fresh) =
     [\<lparr>t_callSid = ''CA1'', t_userMessage = ''bye'', t_phase = AwaitTool hangUp [searchMenu] [],
       t_ack = Some \<lparr>markName = ''audio_1000'', listening = False, deadline = Some 11000,
                     resolved = True\<rparr>,
       t_log = [AIRequested ''bye'', SpeechRequested ''Goodbye'', ListenerAdded ''audio_1000'',
                DeadlineSet 11000, ListenerRemoved, Resolved ByEcho, Proceeded,
                ToolInvoked hangUp]\<rparr>]"
  by (simp add: eval_defs decimal_0 decimal_1000 b64_1234)

theorem hang_up_stops_orchestration_witness:
  "(0::nat) < length (tasks (run env_ok (spoke_goodbye @ [Receive (EvMark ''audio_1000'')]) fresh))
   \<and> t_phase (tasks (run env_ok (spoke_goodbye @ [Receive (EvMark ''audio_1000'')]) fresh) ! 0)
       = AwaitTool hangUp [searchMenu] []
   \<and> tc_name hangUp = ''hang_up_call''
   \<and> tr_success (executeToolCall (Succeeds []) hangUp)
   \<and> t_phase (tasks (run env_ok
         (ToolReturn 0 (Succeeds []) # [Tick 10000, AckDeadline 0, ToolReturn 0 (Succeeds ''ctx'')])
         (run env_ok (spoke_goodbye @ [Receive (EvMark ''audio_1000'')]) fresh)) ! 0) = Finished
   \<and> filter is_request (t_log (tasks (run env_ok
         (ToolReturn 0 (Succeeds []) # [Tick 10000, AckDeadline 0, ToolReturn 0 (Succeeds ''ctx'')])
         (run env_ok (spoke_goodbye @ [Receive (EvMark ''audio_1000'')]) fresh)) ! 0))
       = [ToolInvoked hangUp]"
proof -
  let ?s = "run env_ok (spoke_goodbye @ [Receive (EvMark ''audio_1000'')]) fresh"
  have a: "0 < length (tasks ?s)" "t_phase (tasks ?s ! 0) = AwaitTool hangUp [searchMenu] []"
    "filter is_request (t_log (tasks ?s ! 0)) = [ToolInvoked hangUp]"
    by (simp_all add: tasks_heard_echo)
  have b: "tc_name hangUp = ''hang_up_call''" "tr_success (executeToolCall (Succeeds []) hangUp)"
    by (simp_all add: hangUp_def executeToolCall_def)
  have r: "?s = run env_ok (spoke_goodbye @ [Receive (EvMark ''audio_1000'')])
                  (accept 0 Map.empty Map.empty Map.empty)"
    by (simp add: fresh_def)
  from hang_up_stops_orchestration[OF r a(1) a(2) b,
      of "[Tick 10000, AckDeadline 0, ToolReturn 0 (Succeeds ''ctx'')]"] a b
  show ?thesis by simp
qed

subsection \<open>The acknowledgment gate\<close>

lemma reachable_wf: "session_wf (run E evs (accept t0 conns calls hist))"
  by (rule session_wf_run[OF session_wf_accept])

lemma outstanding_shape:
  assumes "task_wf t" "t_ack t = Some a" "\<not> resolved a"
  shows "listening a" "deadline a \<noteq> None"
    "\<exists>resp tc rest. t_phase t = AwaitPlayback resp \<and> r_toolCalls resp = Some (tc # rest)"
proof -
  show "listening a" "deadline a \<noteq> None" using assms by (auto simp: task_wf_def)
  have "awaiting_playback (t_phase t)" using assms by (auto simp: task_wf_def)
  then show "\<exists>resp tc rest. t_phase t = AwaitPlayback resp \<and> r_toolCalls resp = Some (tc # rest)"
    by (cases "t_phase t") (auto simp: hasToolCalls_def neq_Nil_conv split: option.splits)
qed

lemma ackTimeout_outstanding:
  assumes "t_ack t = Some a" "\<not> resolved a" "deadline a = Some due" "due \<le> clk"
    "t_phase t = AwaitPlayback resp" "r_toolCalls resp = Some (tc # rest)"
  shows "ackTimeout clk t =
           t\<lparr>t_phase := AwaitTool tc rest [],
             t_ack := Some (a\<lparr>deadline := None, listening := False, resolved := True\<rparr>),
             t_log := t_log t @ [ListenerRemoved, Resolved ByTimeout, Proceeded, ToolInvoked tc]\<rparr>"
  using assms by (simp add: ackTimeout_def settle_def afterAck_def Let_def)

lemma markHandler_outstanding:
  assumes "t_ack t = Some a" "\<not> resolved a" "listening a"
    "t_phase t = AwaitPlayback resp" "r_toolCalls resp = Some (tc # rest)"
  shows "markHandler (markName a) t =
           t\<lparr>t_phase := AwaitTool tc rest [],
             t_ack := Some (a\<lparr>listening := False, resolved := True\<rparr>),
             t_log := t_log t @ [ListenerRemoved, Resolved ByEcho, Proceeded, ToolInvoked tc]\<rparr>"
  using assms by (simp add: markHandler_def settle_def afterAck_def Let_def)

lemma markHandler_other:
  "t_ack t = Some a \<Longrightarrow> n \<noteq> markName a \<Longrightarrow> markHandler n t = t"
  by (simp add: markHandler_def)

lemma step_AckDeadline_nth:
  "tid < length (tasks s) \<Longrightarrow>
   tasks (step E (AckDeadline tid) s) ! tid = ackTimeout (now s) (tasks s ! tid)"
  by (simp add: step_def onAckDeadline_def)

lemma step_Mark_nth:
  "tid < length (tasks s) \<Longrightarrow>
   tasks (step E (Receive (EvMark n)) s) ! tid = markHandler n (tasks s ! tid)"
  by (simp add: step_def onMessage_def)


lemma run_append: "run E (xs @ ys) s = run E ys (run E xs s)"
  by (induction xs arbitrary: s) simp_all

lemma now_spoke_goodbye: "now (run env_ok spoke_goodbye fresh) = 1000"
  by (simp add: eval_defs decimal_0 decimal_1000 b64_1234)



lemma wf_counts:
  "task_wf t \<Longrightarrow> detached False (t_log t)
     \<and> count_list (t_log t) Proceeded = (if settled t then 1 else 0)"
  by (auto simp: task_wf_def settled_def count_Proceeded_none split: option.splits if_splits)

lemma settled_shape:
  assumes "task_wf t" "t_ack t = Some a" "resolved a"
  shows "\<not> listening a"
  using assms by (auto simp: task_wf_def)

lemma markHandler_settled:
  "t_ack t = Some a \<Longrightarrow> \<not> listening a \<Longrightarrow> markHandler n t = t"
  by (simp add: markHandler_def)

lemma ackTimeout_settled:
  assumes "t_ack t = Some a" "resolved a" "\<not> listening a"
  shows "ackTimeout clk t =
     (case deadline a of
        None \<Rightarrow> t
      | Some due \<Rightarrow> if due \<le> clk
          then t\<lparr>t_ack := Some (a\<lparr>deadline := None\<rparr>),
                 t_log := t_log t @ [ListenerRemoved, Resolved ByTimeout]\<rparr>
          else t)"
  using assms by (simp add: ackTimeout_def settle_def Let_def split: option.splits)

lemma ackTimeout_early:
  "t_ack t = Some a \<Longrightarrow> deadline a = Some due \<Longrightarrow> clk < due \<Longrightarrow> ackTimeout clk t = t"
  by (simp add: ackTimeout_def)

lemma resume_same_phase:
  "t_phase t' = t_phase (tasks s ! tid) \<Longrightarrow> resume tid t' s = s\<lparr>tasks := (tasks s)[tid := t']\<rparr>"
  by (simp add: resume_def Let_def)

lemma step_AckDeadline_same_phase:
  "tid < length (tasks s) \<Longrightarrow> t_phase (ackTimeout (now s) (tasks s ! tid)) = t_phase (tasks s ! tid)
   \<Longrightarrow> step E (AckDeadline tid) s = s\<lparr>tasks := (tasks s)[tid := ackTimeout (now s) (tasks s ! tid)]\<rparr>"
  by (simp add: step_def onAckDeadline_def resume_same_phase)

lemma step_Speech_nth:
  "tid < length (tasks s) \<Longrightarrow>
   tasks (step E (Speech tid sp) s) ! tid
     = fst (onSpeech (sendUTF_ok E) (connState s) (streamSid s) (now s) sp (tasks s ! tid))"
  by (simp add: step_def onSpeechDone_def split: prod.splits)

lemma onSpeech_creates:
  assumes "t_phase t = AwaitSpeech resp" "hasToolCalls resp"
  shows "\<exists>a. t_ack (fst (onSpeech ok cstate sid clk (Some audio) t)) = Some a
            \<and> markName a = audio_token clk
            \<and> (resolved a \<or> deadline a = Some (clk + 10000))"
proof -
  obtain fs threw where e: "sendAudioToTwilio ok cstate sid clk audio (Some (audio_token clk))
     = (fs, threw)" by (cases "sendAudioToTwilio ok cstate sid clk audio (Some (audio_token clk))")
  show ?thesis
  proof (cases threw)
    case True
    then show ?thesis using assms e
      by (simp add: onSpeech_def Let_def settle_def afterAck_def hasToolCalls_def
          split: option.splits list.splits)
  next
    case False
    then show ?thesis using assms e by (simp add: onSpeech_def Let_def)
  qed
qed

text \<open>
  C4 (as amended). In every state reached from an accepted connection: the function has
  resumed after its \<open>await\<close> exactly once when the promise is settled and not at all before,
  and in every log each \<open>resolve()\<close> comes directly after the removal of the listener. The
  send of a reply with tool calls creates the acknowledgment with the name of its mark and,
  unless the send fails, with its timer due 10 s later. An acknowledgment that is not settled
  has its listener registered and its timer pending; an echoed mark with its name settles
  it, an echoed mark with another name leaves the task as it is, and its timer settles it
  once due and does nothing before. On a settled acknowledgment a later \<open>resolve()\<close> has no
  effect: the listener is removed, so no echoed mark reaches the task; the timer, where the
  echo left it pending, fires when due, removes the listener and calls \<open>resolve()\<close> again, and
  the session is as before but for the timer and these two entries of the log: the
  orchestration is at the same \<open>await\<close>, with the same tool calls to come.
\<close>

theorem pending_ack_settles_once:
  assumes reach: "s = run E evs (accept t0 conns calls hist)"
  shows "list_all (\<lambda>t. detached False (t_log t)
                      \<and> count_list (t_log t) Proceeded = (if settled t then 1 else 0)) (tasks s)
     \<and> (\<forall>tid resp audio. tid < length (tasks s) \<and> t_phase (tasks s ! tid) = AwaitSpeech resp
            \<and> hasToolCalls resp \<longrightarrow>
          (\<exists>a. t_ack (tasks (step E (Speech tid (Some audio)) s) ! tid) = Some a
             \<and> markName a = audio_token (now s)
             \<and> (resolved a \<or> deadline a = Some (now s + 10000))))
     \<and> (\<forall>tid a. tid < length (tasks s) \<and> t_ack (tasks s ! tid) = Some a \<and> \<not> resolved a \<longrightarrow>
          listening a \<and> deadline a \<noteq> None
          \<and> settled (tasks (step E (Receive (EvMark (markName a))) s) ! tid)
          \<and> (\<exists>tc. t_log (tasks (step E (Receive (EvMark (markName a))) s) ! tid)
                  = t_log (tasks s ! tid) @ [ListenerRemoved, Resolved ByEcho, Proceeded,
                                             ToolInvoked tc])
          \<and> (\<forall>n. n \<noteq> markName a \<longrightarrow>
                 tasks (step E (Receive (EvMark n)) s) ! tid = tasks s ! tid)
          \<and> (\<forall>due. deadline a = Some due \<and> due \<le> now s \<longrightarrow>
                 settled (tasks (step E (AckDeadline tid) s) ! tid)
                 \<and> (\<exists>tc. t_log (tasks (step E (AckDeadline tid) s) ! tid)
                         = t_log (tasks s ! tid) @ [ListenerRemoved, Resolved ByTimeout, Proceeded,
                                                    ToolInvoked tc]))
          \<and> (\<forall>due. deadline a = Some due \<and> now s < due \<longrightarrow>
                 step E (AckDeadline tid) s = s))
     \<and> (\<forall>tid a. tid < length (tasks s) \<and> t_ack (tasks s ! tid) = Some a \<and> resolved a \<longrightarrow>
          \<not> listening a
          \<and> (\<forall>n. tasks (step E (Receive (EvMark n)) s) ! tid = tasks s ! tid)
          \<and> (\<forall>due. deadline a = Some due \<and> due \<le> now s \<longrightarrow>
                 step E (AckDeadline tid) s
                   = s\<lparr>tasks := (tasks s)[tid := (tasks s ! tid)
                          \<lparr>t_ack := Some (a\<lparr>deadline := None\<rparr>),
                           t_log := t_log (tasks s ! tid) @ [ListenerRemoved, Resolved ByTimeout]\<rparr>]\<rparr>)
          \<and> (\<forall>due. deadline a = Some due \<and> now s < due \<longrightarrow>
                 step E (AckDeadline tid) s = s)
          \<and> (deadline a = None \<longrightarrow> step E (AckDeadline tid) s = s))"
proof -
  have wf: "session_wf s" unfolding reach by (rule reachable_wf)
  have 1: "list_all (\<lambda>t. detached False (t_log t)
                      \<and> count_list (t_log t) Proceeded = (if settled t then 1 else 0)) (tasks s)"
    using wf wf_counts by (auto simp: session_wf_def list_all_iff)
  have 2: "listening a \<and> deadline a \<noteq> None
          \<and> settled (tasks (step E (Receive (EvMark (markName a))) s) ! tid)
          \<and> (\<exists>tc. t_log (tasks (step E (Receive (EvMark (markName a))) s) ! tid)
                  = t_log (tasks s ! tid) @ [ListenerRemoved, Resolved ByEcho, Proceeded,
                                             ToolInvoked tc])
          \<and> (\<forall>n. n \<noteq> markName a \<longrightarrow>
                 tasks (step E (Receive (EvMark n)) s) ! tid = tasks s ! tid)
          \<and> (\<forall>due. deadline a = Some due \<and> due \<le> now s \<longrightarrow>
                 settled (tasks (step E (AckDeadline tid) s) ! tid)
                 \<and> (\<exists>tc. t_log (tasks (step E (AckDeadline tid) s) ! tid)
                         = t_log (tasks s ! tid) @ [ListenerRemoved, Resolved ByTimeout, Proceeded,
                                                    ToolInvoked tc]))
          \<and> (\<forall>due. deadline a = Some due \<and> now s < due \<longrightarrow>
                 step E (AckDeadline tid) s = s)"
    if h: "tid < length (tasks s)" "t_ack (tasks s ! tid) = Some a" "\<not> resolved a" for tid a
  proof -
    note sh = outstanding_shape[OF task_wf_nth[OF wf h(1)] h(2) h(3)]
    from sh(3) obtain resp tc rest where p: "t_phase (tasks s ! tid) = AwaitPlayback resp"
      "r_toolCalls resp = Some (tc # rest)" by blast
    note echo = markHandler_outstanding[OF h(2) h(3) sh(1) p]
    have other: "tasks (step E (Receive (EvMark n)) s) ! tid = tasks s ! tid"
      if "n \<noteq> markName a" for n
      unfolding step_Mark_nth[OF h(1)] using markHandler_other[OF h(2) that] .
    have tmo: "settled (tasks (step E (AckDeadline tid) s) ! tid)
                 \<and> (\<exists>tc. t_log (tasks (step E (AckDeadline tid) s) ! tid)
                         = t_log (tasks s ! tid) @ [ListenerRemoved, Resolved ByTimeout, Proceeded,
                                                    ToolInvoked tc])"
      if "deadline a = Some due" "due \<le> now s" for due
      unfolding step_AckDeadline_nth[OF h(1)] ackTimeout_outstanding[OF h(2) h(3) that p]
      by (simp add: settled_def)
    have early: "step E (AckDeadline tid) s = s" if "deadline a = Some due" "now s < due" for due
      using step_AckDeadline_same_phase[OF h(1), of E] ackTimeout_early[OF h(2) that] by simp
    show ?thesis
      using sh(1,2) other tmo early unfolding step_Mark_nth[OF h(1)] echo
      by (simp add: settled_def)
  qed
  have 3: "\<not> listening a
          \<and> (\<forall>n. tasks (step E (Receive (EvMark n)) s) ! tid = tasks s ! tid)
          \<and> (\<forall>due. deadline a = Some due \<and> due \<le> now s \<longrightarrow>
                 step E (AckDeadline tid) s
                   = s\<lparr>tasks := (tasks s)[tid := (tasks s ! tid)
                          \<lparr>t_ack := Some (a\<lparr>deadline := None\<rparr>),
                           t_log := t_log (tasks s ! tid) @ [ListenerRemoved, Resolved ByTimeout]\<rparr>]\<rparr>)
          \<and> (\<forall>due. deadline a = Some due \<and> now s < due \<longrightarrow>
                 step E (AckDeadline tid) s = s)
          \<and> (deadline a = None \<longrightarrow> step E (AckDeadline tid) s = s)"
    if h: "tid < length (tasks s)" "t_ack (tasks s ! tid) = Some a" "resolved a" for tid a
  proof -
    note nl = settled_shape[OF task_wf_nth[OF wf h(1)] h(2) h(3)]
    note at = ackTimeout_settled[OF h(2) h(3) nl, of "now s"]
    have ph: "t_phase (ackTimeout (now s) (tasks s ! tid)) = t_phase (tasks s ! tid)"
      unfolding at by (simp split: option.splits)
    note st = step_AckDeadline_same_phase[OF h(1) ph, of E]
    have m: "tasks (step E (Receive (EvMark n)) s) ! tid = tasks s ! tid" for n
      unfolding step_Mark_nth[OF h(1)] using markHandler_settled[OF h(2) nl] .
    show ?thesis using nl m unfolding st at by simp
  qed
  have 4: "\<exists>a. t_ack (tasks (step E (Speech tid (Some audio)) s) ! tid) = Some a
             \<and> markName a = audio_token (now s)
             \<and> (resolved a \<or> deadline a = Some (now s + 10000))"
    if h: "tid < length (tasks s)" "t_phase (tasks s ! tid) = AwaitSpeech resp" "hasToolCalls resp"
    for tid resp audio
    unfolding step_Speech_nth[OF h(1)] using onSpeech_creates[OF h(2,3)] .
  show ?thesis using 1 2 3 4 by blast
qed

lemma tasks_waited:
  "tasks (run env_ok (spoke_goodbye @ [Tick 10000]) fresh) =
     [\<lparr>t_callSid = ''CA1'', t_userMessage = ''bye'', t_phase = AwaitPlayback goodbye,
       t_ack = Some \<lparr>markName = ''audio_1000'', listening = True, deadline = Some 11000,
                     resolved = False\<rparr>,
       t_log = [AIRequested ''bye'', SpeechRequested ''Goodbye'', ListenerAdded ''audio_1000'',
                DeadlineSet 11000]\<rparr>]"
  using tasks_spoke_goodbye by (simp add: run_append step_def)

lemma now_deliverMark [simp]: "now (deliverMark n s) = now s"
  by (simp add: deliverMark_def Let_def)

lemma now_heard_echo:
  "now (run env_ok (spoke_goodbye @ [Receive (EvMark ''audio_1000'')]) fresh) = 1000"
  using now_spoke_goodbye by (simp add: run_append step_def onMessage_def)

lemma now_waited: "now (run env_ok (spoke_goodbye @ [Tick 10000]) fresh) = 11000"
  using now_spoke_goodbye by (simp add: run_append step_def)

lemma tasks_got_reply:
  "tasks (run env_ok (said_bye @ [Completion 0 (ApiContent (Some ''bye''))]) fresh) =
     [\<lparr>t_callSid = ''CA1'', t_userMessage = ''bye'', t_phase = AwaitSpeech goodbye, t_ack = None,
       t_log = [AIRequested ''bye'', SpeechRequested ''Goodbye'']\<rparr>]"
  by (simp add: eval_defs decimal_0)

lemma now_got_reply:
  "now (run env_ok (said_bye @ [Completion 0 (ApiContent (Some ''bye''))]) fresh) = 1000"
  by (simp add: eval_defs decimal_0)

lemma tasks_echo_waited:
  "tasks (run env_ok (spoke_goodbye @ [Receive (EvMark ''audio_1000''), Tick 10000]) fresh) =
     [\<lparr>t_callSid = ''CA1'', t_userMessage = ''bye'', t_phase = AwaitTool hangUp [searchMenu] [],
       t_ack = Some \<lparr>markName = ''audio_1000'', listening = False, deadline = Some 11000,
                     resolved = True\<rparr>,
       t_log = [AIRequested ''bye'', SpeechRequested ''Goodbye'', ListenerAdded ''audio_1000'',
                DeadlineSet 11000, ListenerRemoved, Resolved ByEcho, Proceeded,
                ToolInvoked hangUp]\<rparr>]"
proof -
  have "run env_ok (spoke_goodbye @ [Receive (EvMark ''audio_1000''), Tick 10000]) fresh
      = step env_ok (Tick 10000)
          (run env_ok (spoke_goodbye @ [Receive (EvMark ''audio_1000'')]) fresh)"
    by (simp add: run_append)
  then show ?thesis using tasks_heard_echo by (simp add: step_def)
qed

lemma now_echo_waited:
  "now (run env_ok (spoke_goodbye @ [Receive (EvMark ''audio_1000''), Tick 10000]) fresh) = 11000"
proof -
  have "run env_ok (spoke_goodbye @ [Receive (EvMark ''audio_1000''), Tick 10000]) fresh
      = step env_ok (Tick 10000)
          (run env_ok (spoke_goodbye @ [Receive (EvMark ''audio_1000'')]) fresh)"
    by (simp add: run_append)
  then show ?thesis using now_heard_echo by (simp add: step_def)
qed

theorem pending_ack_settles_once_witness:
  "(0::nat) < length (tasks (run env_ok (spoke_goodbye @ [Tick 10000]) fresh))
   \<and> map_option resolved (t_ack (tasks (run env_ok (spoke_goodbye @ [Tick 10000]) fresh) ! 0))
       = Some False
   \<and> map_option markName (t_ack (tasks (run env_ok (spoke_goodbye @ [Tick 10000]) fresh) ! 0))
       = Some ''audio_1000''
   \<and> map_option deadline (t_ack (tasks (run env_ok (spoke_goodbye @ [Tick 10000]) fresh) ! 0))
       = Some (Some 11000)
   \<and> (11000::nat) \<le> now (run env_ok (spoke_goodbye @ [Tick 10000]) fresh)
   \<and> settled (tasks (step env_ok (Receive (EvMark ''audio_1000''))
                        (run env_ok (spoke_goodbye @ [Tick 10000]) fresh)) ! 0)
   \<and> ''audio_999'' \<noteq> ''audio_1000''
   \<and> tasks (step env_ok (Receive (EvMark ''audio_999''))
               (run env_ok (spoke_goodbye @ [Tick 10000]) fresh)) ! 0
       = tasks (run env_ok (spoke_goodbye @ [Tick 10000]) fresh) ! 0
   \<and> settled (tasks (step env_ok (AckDeadline 0)
                        (run env_ok (spoke_goodbye @ [Tick 10000]) fresh)) ! 0)
   \<and> count_list (t_log (tasks (run env_ok (spoke_goodbye @ [Tick 10000]) fresh) ! 0)) Proceeded = 0
   \<and> t_phase (tasks (run env_ok (said_bye @ [Completion 0 (ApiContent (Some ''bye''))]) fresh) ! 0)
       = AwaitSpeech goodbye
   \<and> hasToolCalls goodbye
   \<and> now (run env_ok (said_bye @ [Completion 0 (ApiContent (Some ''bye''))]) fresh) = 1000
   \<and> map_option markName
        (t_ack (tasks (step env_ok (Speech 0 (Some [1, 2, 3, 4]))
           (run env_ok (said_bye @ [Completion 0 (ApiContent (Some ''bye''))]) fresh)) ! 0))
       = Some (audio_token 1000)
   \<and> map_option deadline
        (t_ack (tasks (step env_ok (Speech 0 (Some [1, 2, 3, 4]))
           (run env_ok (said_bye @ [Completion 0 (ApiContent (Some ''bye''))]) fresh)) ! 0))
       = Some (Some 11000)
   \<and> (1000::nat) < 11000
   \<and> step env_ok (AckDeadline 0) (run env_ok spoke_goodbye fresh) = run env_ok spoke_goodbye fresh
   \<and> map_option resolved
        (t_ack (tasks (run env_ok (spoke_goodbye @ [Receive (EvMark ''audio_1000''), Tick 10000])
                         fresh) ! 0))
       = Some True
   \<and> map_option deadline
        (t_ack (tasks (run env_ok (spoke_goodbye @ [Receive (EvMark ''audio_1000''), Tick 10000])
                         fresh) ! 0))
       = Some (Some 11000)
   \<and> (11000::nat) \<le> now (run env_ok (spoke_goodbye @ [Receive (EvMark ''audio_1000''),
                                                        Tick 10000]) fresh)
   \<and> tasks (step env_ok (Receive (EvMark ''audio_1000''))
        (run env_ok (spoke_goodbye @ [Receive (EvMark ''audio_1000''), Tick 10000]) fresh)) ! 0
       = tasks (run env_ok (spoke_goodbye @ [Receive (EvMark ''audio_1000''), Tick 10000]) fresh) ! 0
   \<and> t_phase (tasks (step env_ok (AckDeadline 0)
        (run env_ok (spoke_goodbye @ [Receive (EvMark ''audio_1000''), Tick 10000]) fresh)) ! 0)
       = AwaitTool hangUp [searchMenu] []
   \<and> conversationBuffer (step env_ok (AckDeadline 0)
        (run env_ok (spoke_goodbye @ [Receive (EvMark ''audio_1000''), Tick 10000]) fresh))
       = conversationBuffer
           (run env_ok (spoke_goodbye @ [Receive (EvMark ''audio_1000''), Tick 10000]) fresh)"
proof -
  let ?s = "run env_ok (spoke_goodbye @ [Tick 10000]) fresh"
  let ?a = "\<lparr>markName = ''audio_1000'', listening = True, deadline = Some 11000,
             resolved = False\<rparr>"
  let ?p = "run env_ok (said_bye @ [Completion 0 (ApiContent (Some ''bye''))]) fresh"
  let ?q = "run env_ok spoke_goodbye fresh"
  let ?w = "run env_ok (spoke_goodbye @ [Receive (EvMark ''audio_1000''), Tick 10000]) fresh"
  let ?b = "\<lparr>markName = ''audio_1000'', listening = False, deadline = Some 11000,
             resolved = True\<rparr>"
  have r: "?s = run env_ok (spoke_goodbye @ [Tick 10000]) (accept 0 Map.empty Map.empty Map.empty)"
    by (simp add: fresh_def)
  have r0: "?p = run env_ok (said_bye @ [Completion 0 (ApiContent (Some ''bye''))])
                    (accept 0 Map.empty Map.empty Map.empty)"
    by (simp add: fresh_def)
  have r1: "?q = run env_ok spoke_goodbye (accept 0 Map.empty Map.empty Map.empty)"
    by (simp add: fresh_def)
  have r2: "?w = run env_ok (spoke_goodbye @ [Receive (EvMark ''audio_1000''), Tick 10000])
                    (accept 0 Map.empty Map.empty Map.empty)"
    by (simp add: fresh_def)
  have pre: "0 < length (tasks ?s) \<and> t_ack (tasks ?s ! 0) = Some ?a \<and> \<not> resolved ?a"
    by (simp add: tasks_waited)
  have pre0: "0 < length (tasks ?p) \<and> t_phase (tasks ?p ! 0) = AwaitSpeech goodbye
      \<and> hasToolCalls goodbye"
    by (simp add: tasks_got_reply hasToolCalls_def goodbye_def)
  have pre1: "0 < length (tasks ?q) \<and> t_ack (tasks ?q ! 0) = Some ?a \<and> \<not> resolved ?a"
    by (simp add: tasks_spoke_goodbye)
  have pre2: "0 < length (tasks ?w) \<and> t_ack (tasks ?w ! 0) = Some ?b \<and> resolved ?b"
    by (simp add: tasks_echo_waited)
  have st: "\<not> settled (tasks ?s ! 0)" by (simp add: tasks_waited settled_def)
  note c = pending_ack_settles_once[OF r, THEN conjunct1]
  note g = pending_ack_settles_once[OF r, THEN conjunct2, THEN conjunct2, THEN conjunct1,
             rule_format, OF pre]
  note g0 = pending_ack_settles_once[OF r0, THEN conjunct2, THEN conjunct1, rule_format, OF pre0,
              of "[1, 2, 3, 4]"]
  note g1 = pending_ack_settles_once[OF r1, THEN conjunct2, THEN conjunct2, THEN conjunct1,
              rule_format, OF pre1]
  note g2 = pending_ack_settles_once[OF r2, THEN conjunct2, THEN conjunct2, THEN conjunct2,
              rule_format, OF pre2]
  have e: "settled (tasks (step env_ok (Receive (EvMark ''audio_1000'')) ?s) ! 0)"
    using g by simp
  have o: "tasks (step env_ok (Receive (EvMark ''audio_999'')) ?s) ! 0 = tasks ?s ! 0"
    using g by simp
  have d: "settled (tasks (step env_ok (AckDeadline 0) ?s) ! 0)"
    using g now_waited by simp
  have k: "count_list (t_log (tasks ?s ! 0)) Proceeded = 0"
    using c st pre by (simp add: list_all_length)
  from g0 obtain a where a: "t_ack (tasks (step env_ok (Speech 0 (Some [1, 2, 3, 4])) ?p) ! 0)
      = Some a" "markName a = audio_token (now ?p)"
      "resolved a \<or> deadline a = Some (now ?p + 10000)" by blast
  have sp: "step env_ok (Speech 0 (Some [1, 2, 3, 4])) ?p = ?q"
    by (simp add: spoke_goodbye_def run_append)
  have nr: "\<not> resolved a" using a(1) unfolding sp by (auto simp: tasks_spoke_goodbye)
  have m0: "map_option markName
        (t_ack (tasks (step env_ok (Speech 0 (Some [1, 2, 3, 4])) ?p) ! 0))
       = Some (audio_token 1000)"
    using a(1,2) by (simp add: now_got_reply)
  have d0: "map_option deadline
        (t_ack (tasks (step env_ok (Speech 0 (Some [1, 2, 3, 4])) ?p) ! 0))
       = Some (Some 11000)"
    using a(1,3) nr by (simp add: now_got_reply)
  have early: "step env_ok (AckDeadline 0) ?q = ?q"
    using g1 now_spoke_goodbye by simp
  have m2: "tasks (step env_ok (Receive (EvMark ''audio_1000'')) ?w) ! 0 = tasks ?w ! 0"
    using g2 by simp
  have l2: "step env_ok (AckDeadline 0) ?w
                   = ?w\<lparr>tasks := (tasks ?w)[0 := (tasks ?w ! 0)
                          \<lparr>t_ack := Some (?b\<lparr>deadline := None\<rparr>),
                           t_log := t_log (tasks ?w ! 0) @ [ListenerRemoved, Resolved ByTimeout]\<rparr>]\<rparr>"
    using g2 now_echo_waited by simp
  have p2: "t_phase (tasks (step env_ok (AckDeadline 0) ?w) ! 0) = AwaitTool hangUp [searchMenu] []"
    unfolding l2 by (simp add: tasks_echo_waited)
  have b2: "conversationBuffer (step env_ok (AckDeadline 0) ?w) = conversationBuffer ?w"
    unfolding l2 by simp
  show ?thesis
    using e o d k m0 d0 early m2 p2 b2 pre0
    by (simp add: tasks_waited now_waited now_got_reply tasks_echo_waited now_echo_waited)
qed

text \<open>
  C4 as stated fails. In the handler of the echo the listener is removed before \<open>resolve()\<close>
  is called, not after; and the echo does not cancel the timer: ten seconds later it fires,
  removes the listener and calls \<open>resolve()\<close> a second time.
\<close>

theorem pending_ack_settles_once_counterexample:
  "map_option deadline
     (t_ack (tasks (run env_ok (spoke_goodbye @ [Receive (EvMark ''audio_1000'')]) fresh) ! 0))
     = Some (Some 11000)
   \<and> t_log (tasks (run env_ok (spoke_goodbye @ [Receive (EvMark ''audio_1000''), Tick 10000,
                                                 AckDeadline 0]) fresh) ! 0)
     = [AIRequested ''bye'', SpeechRequested ''Goodbye'', ListenerAdded ''audio_1000'',
        DeadlineSet 11000, ListenerRemoved, Resolved ByEcho, Proceeded, ToolInvoked hangUp,
        ListenerRemoved, Resolved ByTimeout]"
proof -
  have 1: "map_option deadline
     (t_ack (tasks (run env_ok (spoke_goodbye @ [Receive (EvMark ''audio_1000'')]) fresh) ! 0))
     = Some (Some 11000)"
    by (simp add: tasks_heard_echo)
  have 2: "tasks (run env_ok [Tick 10000, AckDeadline 0]
                 (run env_ok (spoke_goodbye @ [Receive (EvMark ''audio_1000'')]) fresh)) ! 0 =
      \<lparr>t_callSid = ''CA1'', t_userMessage = ''bye'', t_phase = AwaitTool hangUp [searchMenu] [],
       t_ack = Some \<lparr>markName = ''audio_1000'', listening = False, deadline = None,
                     resolved = True\<rparr>,
       t_log = [AIRequested ''bye'', SpeechRequested ''Goodbye'', ListenerAdded ''audio_1000'',
                DeadlineSet 11000, ListenerRemoved, Resolved ByEcho, Proceeded,
                ToolInvoked hangUp, ListenerRemoved, Resolved ByTimeout]\<rparr>"
    by (simp add: step_def onAckDeadline_def tasks_heard_echo now_heard_echo ackTimeout_def
        settle_def resume_def Let_def)
  have 3: "run env_ok (spoke_goodbye @ [Receive (EvMark ''audio_1000''), Tick 10000,
                                        AckDeadline 0]) fresh
      = run env_ok [Tick 10000, AckDeadline 0]
          (run env_ok (spoke_goodbye @ [Receive (EvMark ''audio_1000'')]) fresh)"
    by (simp only: run_append[symmetric] append_assoc append_Cons append_Nil)
  show ?thesis unfolding 3 using 1 2 by simp
qed

lemma filter_length_mono:
  "list_all (\<lambda>x. if P x then Q x else True) xs \<Longrightarrow> length (filter P xs) \<le> length (filter Q xs)"
  by (induction xs) (auto split: if_splits)

lemma wf_outstanding:
  "task_wf t \<Longrightarrow> (if outstanding t then in_flight t \<and> awaiting_playback (t_phase t) else True)"
  by (auto simp: task_wf_def outstanding_def in_flight_def split: option.splits if_splits)

text \<open>
  C5 (as amended). In every state reached from an accepted connection, an acknowledgment
  that is outstanding belongs to an orchestration in flight that waits for its playback, so
  the outstanding acknowledgments never outnumber the orchestrations in flight. Nothing
  bounds the orchestrations in flight: a quiet-window timer that fires at least 1000 ms after
  the last fragment, with a non-blank buffer, starts a new orchestration whatever the state of
  the earlier ones.
\<close>

theorem acks_belong_to_orchestrations:
  assumes reach: "s = run E evs (accept t0 conns calls hist)"
  shows "list_all (\<lambda>t. if outstanding t then in_flight t \<and> awaiting_playback (t_phase t) else True)
           (tasks s)
     \<and> length (filter outstanding (tasks s)) \<le> length (filter in_flight (tasks s))
     \<and> (\<forall>due rest cs. quietTimers s = due # rest \<and> due \<le> now s
            \<and> 1000 \<le> now s - lastSpeechTime s \<and> truthy (trim (conversationBuffer s))
            \<and> callSession s = Some cs \<and> truthy_opt (streamSid s) \<longrightarrow>
          tasks (step E QuietTimer s) =
            tasks s @ [\<lparr>t_callSid = callSid cs, t_userMessage = trim (conversationBuffer s),
                        t_phase = AwaitAIResponse, t_ack = None,
                        t_log = [AIRequested (trim (conversationBuffer s))]\<rparr>])"
proof -
  have wf: "session_wf s" unfolding reach by (rule reachable_wf)
  have 1: "list_all (\<lambda>t. if outstanding t then in_flight t \<and> awaiting_playback (t_phase t) else True)
           (tasks s)"
    using wf wf_outstanding by (auto simp: session_wf_def list_all_iff)
  then have "list_all (\<lambda>t. if outstanding t then in_flight t else True) (tasks s)"
    by (auto simp: list_all_iff split: if_splits)
  from filter_length_mono[OF this]
  have 2: "length (filter outstanding (tasks s)) \<le> length (filter in_flight (tasks s))" .
  have 3: "tasks (step E QuietTimer s) =
            tasks s @ [\<lparr>t_callSid = callSid cs, t_userMessage = trim (conversationBuffer s),
                        t_phase = AwaitAIResponse, t_ack = None,
                        t_log = [AIRequested (trim (conversationBuffer s))]\<rparr>]"
    if "quietTimers s = due # rest" "due \<le> now s" "1000 \<le> now s - lastSpeechTime s"
      "truthy (trim (conversationBuffer s))" "callSession s = Some cs" "truthy_opt (streamSid s)"
    for due rest cs
    using that by (simp add: step_def quietTimer_def processConversation_def Let_def emit_def)
  show ?thesis using 1 2 3 by blast
qed

theorem acks_belong_to_orchestrations_witness:
  "quietTimers (run env_ok spoke_again fresh) = [2000]
   \<and> (2000::nat) \<le> now (run env_ok spoke_again fresh)
   \<and> (1000::nat) \<le> now (run env_ok spoke_again fresh) - lastSpeechTime (run env_ok spoke_again fresh)
   \<and> truthy (trim (conversationBuffer (run env_ok spoke_again fresh)))
   \<and> map_option callSid (callSession (run env_ok spoke_again fresh)) = Some ''CA1''
   \<and> truthy_opt (streamSid (run env_ok spoke_again fresh))
   \<and> length (filter in_flight (tasks (run env_ok spoke_again fresh))) = 1
   \<and> tasks (step env_ok QuietTimer (run env_ok spoke_again fresh)) =
        tasks (run env_ok spoke_again fresh)
        @ [\<lparr>t_callSid = ''CA1'', t_userMessage = ''bye bye'', t_phase = AwaitAIResponse,
             t_ack = None, t_log = [AIRequested ''bye bye'']\<rparr>]
   \<and> length (filter outstanding (tasks (run env_ok spoke_again fresh)))
        \<le> length (filter in_flight (tasks (run env_ok spoke_again fresh)))"
proof -
  let ?s = "run env_ok spoke_again fresh"
  have r: "?s = run env_ok spoke_again (accept 0 Map.empty Map.empty Map.empty)"
    by (simp add: fresh_def)
  have v: "quietTimers ?s = [2000]" "now ?s = 2000" "lastSpeechTime ?s = 1000"
    "conversationBuffer ?s = ''bye bye ''" "streamSid ?s = Some ''MZ1''"
    "tasks ?s = [\<lparr>t_callSid = ''CA1'', t_userMessage = ''bye'', t_phase = AwaitAIResponse,
                  t_ack = None, t_log = [AIRequested ''bye'']\<rparr>]"
    by (simp_all add: spoke_again_def eval_defs decimal_0)
  have "map_option callSid (callSession ?s) = Some ''CA1''"
    by (simp add: spoke_again_def eval_defs decimal_0)
  then obtain cs where cs: "callSession ?s = Some cs" "callSid cs = ''CA1''"
    by (cases "callSession ?s") auto
  have tb: "trim ''bye bye '' = ''bye bye''" by (simp add: trim_def isSpace_def)
  have pre: "quietTimers ?s = 2000 # [] \<and> 2000 \<le> now ?s \<and> 1000 \<le> now ?s - lastSpeechTime ?s
      \<and> truthy (trim (conversationBuffer ?s)) \<and> callSession ?s = Some cs
      \<and> truthy_opt (streamSid ?s)"
    by (simp add: v cs tb truthy_def)
  from acks_belong_to_orchestrations[OF r]
  have le: "length (filter outstanding (tasks ?s)) \<le> length (filter in_flight (tasks ?s))"
    and f: "\<forall>due rest cs. quietTimers ?s = due # rest \<and> due \<le> now ?s
            \<and> 1000 \<le> now ?s - lastSpeechTime ?s \<and> truthy (trim (conversationBuffer ?s))
            \<and> callSession ?s = Some cs \<and> truthy_opt (streamSid ?s) \<longrightarrow>
          tasks (step env_ok QuietTimer ?s) =
            tasks ?s @ [\<lparr>t_callSid = callSid cs, t_userMessage = trim (conversationBuffer ?s),
                        t_phase = AwaitAIResponse, t_ack = None,
                        t_log = [AIRequested (trim (conversationBuffer ?s))]\<rparr>]"
    by blast+
  from f[rule_format, OF pre]
  have "tasks (step env_ok QuietTimer ?s) =
        tasks ?s @ [\<lparr>t_callSid = ''CA1'', t_userMessage = ''bye bye'', t_phase = AwaitAIResponse,
                     t_ack = None, t_log = [AIRequested ''bye bye'']\<rparr>]"
    by (simp add: cs v tb)
  then show ?thesis using le pre cs by (simp add: v in_flight_def)
qed

lemma decimal_2000: "decimal 2000 = ''2000''"
  by (simp add: decimal.simps[of 2000] decimal.simps[of 200] decimal.simps[of 20]
      decimal.simps[of 2] digit_def char_of_def bit_0)

lemma tasks_said_bye_twice:
  "tasks (run env_ok said_bye_twice fresh) =
     [\<lparr>t_callSid = ''CA1'', t_userMessage = ''bye'', t_phase = AwaitPlayback goodbye,
       t_ack = Some \<lparr>markName = ''audio_2000'', listening = True, deadline = Some 12000,
                     resolved = False\<rparr>,
       t_log = [AIRequested ''bye'', SpeechRequested ''Goodbye'', ListenerAdded ''audio_2000'',
                DeadlineSet 12000]\<rparr>,
      \<lparr>t_callSid = ''CA1'', t_userMessage = ''bye bye'', t_phase = AwaitPlayback goodbye,
       t_ack = Some \<lparr>markName = ''audio_2000'', listening = True, deadline = Some 12000,
                     resolved = False\<rparr>,
       t_log = [AIRequested ''bye bye'', SpeechRequested ''Goodbye'', ListenerAdded ''audio_2000'',
                DeadlineSet 12000]\<rparr>]"
  by (simp add: said_bye_twice_def spoke_again_def eval_defs decimal_0 decimal_2000 b64_1234
        enc6_def char_of_def bit_0)

text \<open>
  C5 as stated fails: the caller speaks again while the first reply is awaited, the second
  quiet-window timer starts a second orchestration, and both wait for their playback, each
  with an outstanding acknowledgment.
\<close>

theorem acks_belong_to_orchestrations_counterexample:
  "length (filter in_flight (tasks (run env_ok said_bye_twice fresh))) = 2
   \<and> length (filter outstanding (tasks (run env_ok said_bye_twice fresh))) = 2
   \<and> flushes (effects (run env_ok said_bye_twice fresh)) = [''bye'', ''bye bye'']"
proof -
  have "effects (run env_ok said_bye_twice fresh) =
      [IdleTimerCleared, Flushed ''bye'', Flushed ''bye bye'',
       Sent (MediaFrame ''MZ1'' ''AQIDBA==''), Sent (MarkFrame ''MZ1'' ''audio_2000''),
       Sent (MediaFrame ''MZ1'' ''AQIDBA==''), Sent (MarkFrame ''MZ1'' ''audio_2000'')]"
    by (simp add: said_bye_twice_def spoke_again_def eval_defs decimal_0 decimal_2000 b64_1234
        enc6_def char_of_def bit_0)
  then show ?thesis
    by (simp add: tasks_said_bye_twice in_flight_def outstanding_def)
qed

subsection \<open>The debouncer\<close>

lemma trim_empty_iff: "trim s = [] \<longleftrightarrow> (\<forall>c \<in> set s. isSpace c)"
proof -
  have "trim s = [] \<longleftrightarrow> dropWhile isSpace (rev (dropWhile isSpace s)) = []"
    by (simp add: trim_def)
  also have "\<dots> \<longleftrightarrow> (\<forall>c \<in> set (dropWhile isSpace s). isSpace c)"
    by (simp add: dropWhile_eq_Nil_conv)
  also have "\<dots> \<longleftrightarrow> dropWhile isSpace s = []"
    by (metis dropWhile_eq_Nil_conv dropWhile_idem hd_dropWhile list.set_sel(1))
  also have "\<dots> \<longleftrightarrow> (\<forall>c \<in> set s. isSpace c)"
    by (simp add: dropWhile_eq_Nil_conv)
  finally show ?thesis .
qed

lemma truthy_trim_append:
  "truthy (trim x) \<Longrightarrow> truthy (trim (b @ x @ y))"
  by (auto simp: truthy_def trim_empty_iff)

text \<open>The fields the debouncer reads and writes.\<close>

lemma step_Tick_fields [simp]:
  "now (step E (Tick d) s) = now s + d"
  "quietTimers (step E (Tick d) s) = quietTimers s"
  "conversationBuffer (step E (Tick d) s) = conversationBuffer s"
  "lastSpeechTime (step E (Tick d) s) = lastSpeechTime s"
  "effects (step E (Tick d) s) = effects s"
  "transcriptHandlers (step E (Tick d) s) = transcriptHandlers s"
  by (simp_all add: step_def)

lemma step_Transcript_fields:
  assumes "transcriptHandlers s" "tx_isFinal r" "truthy (trim (tx_text r))"
  shows "now (step E (Transcript r) s) = now s"
    "quietTimers (step E (Transcript r) s) = quietTimers s @ [now s + 1000]"
    "conversationBuffer (step E (Transcript r) s) = conversationBuffer s @ tx_text r @ '' ''"
    "lastSpeechTime (step E (Transcript r) s) = now s"
    "effects (step E (Transcript r) s) = effects s"
    "transcriptHandlers (step E (Transcript r) s)"
  using assms by (simp_all add: step_def onTranscript_def Let_def split: option.splits)

lemma processConversation_fields [simp]:
  "now (processConversation u s) = now s"
  "quietTimers (processConversation u s) = quietTimers s"
  "lastSpeechTime (processConversation u s) = lastSpeechTime s"
  "effects (processConversation u s) = effects s @ [Flushed u]"
  "transcriptHandlers (processConversation u s) = transcriptHandlers s"
  by (simp_all add: processConversation_def Let_def split: option.splits)

text \<open>A timer that fires less than 1000 ms after the last fragment only goes away.\<close>

lemma quietTimer_skips:
  assumes "quietTimers s = due # rest" "due \<le> now s" "now s < lastSpeechTime s + 1000"
  shows "step E QuietTimer s = s\<lparr>quietTimers := rest\<rparr>"
proof -
  have "\<not> 1000 \<le> now s - lastSpeechTime s" using assms(3) by arith
  then show ?thesis using assms by (simp add: step_def quietTimer_def Let_def)
qed

text \<open>A timer that fires 1000 ms or more after the last fragment flushes a non-blank buffer.\<close>

lemma quietTimer_flushes:
  assumes "quietTimers s = due # rest" "due \<le> now s" "lastSpeechTime s + 1000 \<le> now s"
    "truthy (trim (conversationBuffer s))"
  shows "quietTimers (step E QuietTimer s) = rest"
    "effects (step E QuietTimer s) = effects s @ [Flushed (trim (conversationBuffer s))]"
    "now (step E QuietTimer s) = now s"
proof -
  have "1000 \<le> now s - lastSpeechTime s" using assms(3) by arith
  then show "quietTimers (step E QuietTimer s) = rest"
    "effects (step E QuietTimer s) = effects s @ [Flushed (trim (conversationBuffer s))]"
    "now (step E QuietTimer s) = now s"
    using assms by (simp_all add: step_def quietTimer_def Let_def)
qed

lemma quietTimer_blank:
  assumes "trim (conversationBuffer s) = []"
  shows "effects (step E QuietTimer s) = effects s" "tasks (step E QuietTimer s) = tasks s"
  using assms by (simp_all add: step_def quietTimer_def Let_def truthy_def split: list.splits)

lemma flushes_append [simp]: "flushes (xs @ ys) = flushes xs @ flushes ys"
  by (induction xs rule: flushes.induct) simp_all

text \<open>
  Within the window: the timers due up to \<open>target\<close> fire and go away, the later ones stay,
  and nothing else changes but the clock.
\<close>

lemma fireDue_within:
  assumes "quietTimers s = dues" "sorted dues" "\<forall>d \<in> set dues. now s \<le> d"
    "target < lastSpeechTime s + 1000"
  shows "quietTimers (fireDue E target dues s) = filter (\<lambda>d. target < d) dues
     \<and> now (fireDue E target dues s) \<le> max (now s) target
     \<and> now s \<le> now (fireDue E target dues s)
     \<and> conversationBuffer (fireDue E target dues s) = conversationBuffer s
     \<and> lastSpeechTime (fireDue E target dues s) = lastSpeechTime s
     \<and> effects (fireDue E target dues s) = effects s
     \<and> transcriptHandlers (fireDue E target dues s) = transcriptHandlers s"
  using assms
proof (induction dues arbitrary: s)
  case Nil
  then show ?case by simp
next
  case (Cons due dues)
  show ?case
  proof (cases "due \<le> target")
    case False
    then have "\<forall>d \<in> set dues. target < d" using Cons.prems(2) by auto
    then have "filter (\<lambda>d. target < d) dues = dues" by (simp add: filter_id_conv)
    then show ?thesis using False Cons.prems(1) by simp
  next
    case True
    let ?s1 = "step E (Tick (due - now s)) s"
    have n1: "now ?s1 = due" using Cons.prems(3) by simp
    have q1: "quietTimers ?s1 = due # dues" using Cons.prems(1) by simp
    have "step E QuietTimer ?s1 = ?s1\<lparr>quietTimers := dues\<rparr>"
      by (rule quietTimer_skips[OF q1]) (use n1 True Cons.prems(4) in simp_all)
    then have s2: "step E QuietTimer ?s1 = s\<lparr>now := due, quietTimers := dues\<rparr>"
      using Cons.prems(3) by (simp add: step_def)
    let ?s2 = "s\<lparr>now := due, quietTimers := dues\<rparr>"
    have IH: "quietTimers (fireDue E target dues ?s2) = filter (\<lambda>d. target < d) dues
     \<and> now (fireDue E target dues ?s2) \<le> max (now ?s2) target
     \<and> now ?s2 \<le> now (fireDue E target dues ?s2)
     \<and> conversationBuffer (fireDue E target dues ?s2) = conversationBuffer ?s2
     \<and> lastSpeechTime (fireDue E target dues ?s2) = lastSpeechTime ?s2
     \<and> effects (fireDue E target dues ?s2) = effects ?s2
     \<and> transcriptHandlers (fireDue E target dues ?s2) = transcriptHandlers ?s2"
      by (rule Cons.IH) (use Cons.prems in auto)
    show ?thesis using True IH Cons.prems(3) by (simp add: s2)
  qed
qed

lemma sorted_le_last: "sorted xs \<Longrightarrow> d \<in> set xs \<Longrightarrow> d \<le> last xs"
  by (induction xs) (auto split: if_splits)

lemma advance_fields:
  assumes "sorted (quietTimers s)" "\<forall>d \<in> set (quietTimers s). now s \<le> d"
    "now s + g < lastSpeechTime s + 1000"
  shows "quietTimers (advance E g s) = filter (\<lambda>d. now s + g < d) (quietTimers s)"
    "now (advance E g s) = now s + g"
    "conversationBuffer (advance E g s) = conversationBuffer s"
    "lastSpeechTime (advance E g s) = lastSpeechTime s"
    "effects (advance E g s) = effects s"
    "transcriptHandlers (advance E g s) = transcriptHandlers s"
proof -
  let ?s1 = "fireDue E (now s + g) (quietTimers s) s"
  from fireDue_within[OF refl assms(1) assms(2) assms(3), of E]
  have f: "quietTimers ?s1 = filter (\<lambda>d. now s + g < d) (quietTimers s)"
    "now ?s1 \<le> max (now s) (now s + g)" "now s \<le> now ?s1"
    "conversationBuffer ?s1 = conversationBuffer s" "lastSpeechTime ?s1 = lastSpeechTime s"
    "effects ?s1 = effects s" "transcriptHandlers ?s1 = transcriptHandlers s"
    by blast+
  show "quietTimers (advance E g s) = filter (\<lambda>d. now s + g < d) (quietTimers s)"
    "now (advance E g s) = now s + g"
    "conversationBuffer (advance E g s) = conversationBuffer s"
    "lastSpeechTime (advance E g s) = lastSpeechTime s"
    "effects (advance E g s) = effects s"
    "transcriptHandlers (advance E g s) = transcriptHandlers s"
    using f by (simp_all add: advance_def Let_def)
qed

lemma buffering_first:
  assumes "transcriptHandlers s" "quietTimers s = []" "conversationBuffer s = []"
    "tx_isFinal r" "truthy (trim (tx_text r))"
  shows "buffering (step E (Transcript r) (advance E g s)) (tx_text r @ '' '') (flushes (effects s))"
proof -
  have a: "advance E g s = step E (Tick g) s" using assms(2) by (simp add: advance_def Let_def)
  have h: "transcriptHandlers (step E (Tick g) s)" using assms(1) by simp
  note f = step_Transcript_fields[OF h assms(4) assms(5), of E]
  have t: "truthy (trim (tx_text r @ '' ''))"
    using truthy_trim_append[OF assms(5), of "[]" "'' ''"] by simp
  show ?thesis
    unfolding a buffering_def using f t assms(2,3) by simp
qed

lemma buffering_next:
  assumes b: "buffering s buf F" and g: "0 < g" "g < 1000"
    and r: "tx_isFinal r" "truthy (trim (tx_text r))"
  shows "buffering (step E (Transcript r) (advance E g s)) (buf @ tx_text r @ '' '') F"
proof -
  let ?q = "quietTimers s"
  have q: "sorted ?q" "\<forall>d \<in> set ?q. now s \<le> d" "now s + g < lastSpeechTime s + 1000"
    "?q \<noteq> []" "last ?q = now s + 1000"
    using b g by (auto simp: buffering_def intro: less_imp_le)
  note a = advance_fields[OF q(1) q(2) q(3), of E]
  have h: "transcriptHandlers (advance E g s)" using a(6) b by (simp add: buffering_def)
  note f = step_Transcript_fields[OF h r, of E]
  let ?keep = "filter (\<lambda>d. now s + g < d) ?q"
  have le: "d \<le> now s + 1000" if "d \<in> set ?q" for d
    using sorted_le_last[OF q(1) that] q(5) by simp
  have srt: "sorted (?keep @ [now s + g + 1000])"
  proof -
    have "x \<le> now s + g + 1000" if "x \<in> set ?q" for x using le[OF that] by simp
    then show ?thesis using q(1) by (auto simp: sorted_append intro!: sorted_wrt_filter)
  qed
  have t: "truthy (trim (buf @ tx_text r @ '' ''))" by (rule truthy_trim_append[OF r(2)])
  have k: "\<forall>d \<in> set ?q. d < now s + g + 1000" using le g by fastforce
  have b': "transcriptHandlers s" "conversationBuffer s = buf" "lastSpeechTime s = now s"
    "flushes (effects s) = F"
    using b by (simp_all add: buffering_def)
  show ?thesis
    unfolding buffering_def
    using f(6) srt t k g(1) by (simp add: f(1-5) a b')
qed

lemma buffering_feed:
  "buffering s buf F \<Longrightarrow>
   \<forall>fr \<in> set frs. 0 < fst fr \<and> fst fr < 1000 \<and> tx_isFinal (snd fr) \<and> truthy (trim (tx_text (snd fr))) \<Longrightarrow>
   buffering (feed E frs s) (buf @ concat (map (\<lambda>fr. tx_text (snd fr) @ '' '') frs)) F"
proof (induction frs arbitrary: s buf)
  case Nil
  then show ?case by simp
next
  case (Cons fr frs)
  obtain g r where fr: "fr = (g, r)" by (cases fr)
  have "buffering (step E (Transcript r) (advance E g s)) (buf @ tx_text r @ '' '') F"
    using Cons.prems fr by (intro buffering_next) auto
  from Cons.IH[OF this] Cons.prems(2) show ?case by (simp add: fr)
qed

text \<open>Once 1000 ms have passed, the last timer flushes the buffer, and only that timer.\<close>

lemma fireDue_flush:
  assumes "quietTimers s = dues" "dues \<noteq> []" "sorted dues"
    "last dues = lastSpeechTime s + 1000" "\<forall>d \<in> set (butlast dues). d < lastSpeechTime s + 1000"
    "\<forall>d \<in> set dues. now s \<le> d" "truthy (trim (conversationBuffer s))"
    "lastSpeechTime s + 1000 \<le> target"
  shows "quietTimers (fireDue E target dues s) = []
     \<and> effects (fireDue E target dues s) = effects s @ [Flushed (trim (conversationBuffer s))]"
  using assms
proof (induction dues arbitrary: s)
  case Nil
  then show ?case by simp
next
  case (Cons due dues)
  let ?s1 = "step E (Tick (due - now s)) s"
  have n1: "now ?s1 = due" using Cons.prems(6) by simp
  have q1: "quietTimers ?s1 = due # dues" using Cons.prems(1) by simp
  show ?case
  proof (cases dues)
    case Nil
    have d: "due = lastSpeechTime s + 1000" using Cons.prems(4) Nil by simp
    have "quietTimers (step E QuietTimer ?s1) = dues
        \<and> effects (step E QuietTimer ?s1) = effects ?s1 @ [Flushed (trim (conversationBuffer ?s1))]"
      using quietTimer_flushes[OF q1, of E] n1 d Cons.prems(7) by simp
    then show ?thesis using Nil d Cons.prems(8) by simp
  next
    case (Cons d' ds)
    have lt: "due < lastSpeechTime s + 1000" using Cons.prems(5) Cons by simp
    have "step E QuietTimer ?s1 = ?s1\<lparr>quietTimers := dues\<rparr>"
      by (rule quietTimer_skips[OF q1]) (use n1 lt in simp_all)
    then have s2: "step E QuietTimer ?s1 = s\<lparr>now := due, quietTimers := dues\<rparr>"
      using Cons.prems(6) by (simp add: step_def)
    let ?s2 = "s\<lparr>now := due, quietTimers := dues\<rparr>"
    have IH: "quietTimers (fireDue E target dues ?s2) = []
     \<and> effects (fireDue E target dues ?s2) = effects ?s2 @ [Flushed (trim (conversationBuffer ?s2))]"
      by (rule Cons.IH) (use Cons.prems Cons in auto)
    show ?thesis using lt Cons.prems(8) IH by (simp add: s2)
  qed
qed

lemma buffering_flush:
  assumes b: "buffering s buf F" and D: "1000 \<le> D"
  shows "flushes (effects (advance E D s)) = F @ [trim buf]" "quietTimers (advance E D s) = []"
proof -
  have "quietTimers (fireDue E (now s + D) (quietTimers s) s) = []
     \<and> effects (fireDue E (now s + D) (quietTimers s) s)
         = effects s @ [Flushed (trim (conversationBuffer s))]"
    by (rule fireDue_flush[OF refl]) (use b D in \<open>auto simp: buffering_def intro: less_imp_le\<close>)
  then show "flushes (effects (advance E D s)) = F @ [trim buf]" "quietTimers (advance E D s) = []"
    using b by (simp_all add: advance_def Let_def buffering_def)
qed

text \<open>
  The ordinary case. In a run of fragments and quiet-window timers alone, with every timer
  firing when it is due: when the buffer is empty and no timer is pending, and final
  non-blank fragments arrive, each but the first more than 0 and less than 1000 ms after the
  one before, then once 1000 ms have passed after the last one exactly one utterance has
  been flushed, the fragments in the order they came, each followed by one space, the whole
  trimmed; no timer is left. A quiet-window timer that fires with a blank buffer flushes
  nothing and starts nothing.
\<close>

lemma quiet_burst_single_flush:
  assumes "transcriptHandlers s" "quietTimers s = []" "conversationBuffer s = []"
    and "tx_isFinal r \<and> truthy (trim (tx_text r))"
    and "\<forall>fr \<in> set later. 0 < fst fr \<and> fst fr < 1000
           \<and> tx_isFinal (snd fr) \<and> truthy (trim (tx_text (snd fr)))"
    and "1000 \<le> D"
  shows "flushes (effects (advance E D (feed E ((g, r) # later) s)))
           = flushes (effects s)
             @ [trim (concat (map (\<lambda>fr. tx_text (snd fr) @ '' '') ((g, r) # later)))]
     \<and> quietTimers (advance E D (feed E ((g, r) # later) s)) = []
     \<and> (\<forall>u. trim (conversationBuffer u) = [] \<longrightarrow>
            effects (step E QuietTimer u) = effects u \<and> tasks (step E QuietTimer u) = tasks u)"
proof -
  have "buffering (step E (Transcript r) (advance E g s)) (tx_text r @ '' '') (flushes (effects s))"
    using assms by (intro buffering_first) auto
  from buffering_feed[OF this assms(5), of E]
  have "buffering (feed E ((g, r) # later) s)
          (concat (map (\<lambda>fr. tx_text (snd fr) @ '' '') ((g, r) # later))) (flushes (effects s))"
    by simp
  from buffering_flush[OF this assms(6), of E] quietTimer_blank[of _ E]
  show ?thesis by blast
qed

lemmas burst_defs = started_def two_fragments_def same_instant_def late_by_1ms_def
  said_hello_def reply_between_def reply_pending_def advance_def

lemma started_fields:
  "transcriptHandlers started" "quietTimers started = []" "conversationBuffer started = []"
  "effects started = [IdleTimerCleared]"
  by (simp_all add: started_def eval_defs)

lemma trim_book_a_table: "trim ''book a table '' = ''book a table''"
  by (simp add: trim_def isSpace_def)

text \<open>Two fragments 500 ms apart, then a second of quiet: one utterance.\<close>

lemma quiet_burst_two_fragments:
  "flushes (effects (advance env_ok 1000 (feed env_ok two_fragments started))) = [''book a table'']
   \<and> quietTimers (advance env_ok 1000 (feed env_ok two_fragments started)) = []"
proof -
  have f: "tx_isFinal (final ''book'')" "truthy (trim (tx_text (final ''book'')))"
    "tx_isFinal (final ''a table'')" "truthy (trim (tx_text (final ''a table'')))"
    by (simp_all add: final_def trim_def isSpace_def truthy_def)
  have m: "\<forall>fr \<in> set [(500::nat, final ''a table'')]. 0 < fst fr \<and> fst fr < 1000
           \<and> tx_isFinal (snd fr) \<and> truthy (trim (tx_text (snd fr)))"
    using f by simp
  from quiet_burst_single_flush[OF started_fields(1-3) conjI[OF f(1) f(2)] m, of 1000 env_ok 0]
  have "flushes (effects (advance env_ok 1000 (feed env_ok two_fragments started)))
           = [trim ''book a table '']"
    "quietTimers (advance env_ok 1000 (feed env_ok two_fragments started)) = []"
    by (simp_all add: two_fragments_def started_fields final_def)
  then show ?thesis by (simp add: trim_book_a_table)
qed

text \<open>
  C3: fragments that arrive within the quiet window of their predecessor are flushed as
  exactly one utterance, holding all of them in arrival order. The code does not keep to it.
  Every fragment sets a timer of its own and none is cancelled; a callback flushes when
  1000 ms have passed since the last fragment and the buffer is not blank; the buffer is
  cleared only when the awaited \<open>processConversation\<close> returns. So two fragments handled in
  the same millisecond are flushed twice (and two orchestrations are started for the one
  utterance), and so are two fragments 1 ms apart whose timers run 1 ms late. A fragment
  that arrives while an earlier orchestration is in flight is lost when that orchestration
  returns (of \<open>book\<close> and \<open>a table\<close> only \<open>a table\<close> is flushed), or it is flushed together
  with the utterance flushed before (\<open>hello book a table\<close>).
\<close>

theorem debounce_flushes_twice:
  "flushes (effects (advance env_ok 1000 (feed env_ok same_instant started)))
     = [''book a table'', ''book a table'']
   \<and> map t_userMessage (tasks (advance env_ok 1000 (feed env_ok same_instant started)))
       = [''book a table'', ''book a table'']
   \<and> flushes (effects (run env_ok late_by_1ms started)) = [''book a table'', ''book a table'']
   \<and> flushes (effects (run env_ok reply_between started)) = [''hello'', ''a table'']
   \<and> flushes (effects (run env_ok reply_pending started)) = [''hello'', ''hello book a table'']"
proof -
  have 1: "flushes (effects (advance env_ok 1000 (feed env_ok same_instant started)))
       = [''book a table'', ''book a table'']"
    by (simp add: burst_defs eval_defs)
  have 2: "map t_userMessage (tasks (advance env_ok 1000 (feed env_ok same_instant started)))
       = [''book a table'', ''book a table'']"
    by (simp add: burst_defs eval_defs)
  have 3: "flushes (effects (run env_ok late_by_1ms started))
       = [''book a table'', ''book a table'']"
    by (simp add: burst_defs eval_defs)
  have 4: "flushes (effects (run env_ok reply_between started)) = [''hello'', ''a table'']"
    by (simp add: burst_defs eval_defs decimal_2000 b64_1234)
  have 5: "flushes (effects (run env_ok reply_pending started))
       = [''hello'', ''hello book a table'']"
    by (simp add: burst_defs eval_defs)
  show ?thesis using 1 2 3 4 5 by simp
qed

end
